theory Spec2Isabelle
  imports Complex_Main "HOL-Library.Char_ord" "HOL-Library.List_Lexorder"
begin

section \<open>Python values: errors and list access\<close>

text \<open>
  The functions of \<^verbatim>\<open>SIAB/spillage/api.py\<close> signal failure with \<^verbatim>\<open>assert\<close> and with the
  exceptions of the list operations. An assertion's message is kept with the values that its
  f-string names.
\<close>

datatype msg =
    NoMessage
  | SizeError nat nat
  | NotHierarchical "int list" "int list"
  | MoreBandsThanCalculated int int
  | NspinDiffers int int
  | MultipleAtomTypes nat
  | NoBandIndexFound
  | NoBandIndexFoundFor "int list list"

datatype error =
    AssertionError msg
  | IndexError
  | TypeError
  | ValueError
  | NameError
  | OSError

text \<open>\<^verbatim>\<open>xs[i]\<close>: a negative index counts from the end, anything outside raises IndexError.\<close>

definition getitem :: "'a list \<Rightarrow> int \<Rightarrow> error + 'a" where
  "getitem xs i =
     (if 0 \<le> i \<and> i < int (length xs) then Inr (xs ! nat i)
      else if i < 0 \<and> - int (length xs) \<le> i then Inr (xs ! nat (int (length xs) + i))
      else Inl IndexError)"

text \<open>\<^verbatim>\<open>data[l][j]\<close>, evaluated left to right.\<close>

definition getitem2 :: "'a list list \<Rightarrow> int \<Rightarrow> int \<Rightarrow> error + 'a" where
  "getitem2 data l j = (case getitem data l of Inl e \<Rightarrow> Inl e | Inr row \<Rightarrow> getitem row j)"

text \<open>\<^verbatim>\<open>range(a, b)\<close> over Python's unbounded integers; empty when \<open>b \<le> a\<close>.\<close>

definition py_range :: "int \<Rightarrow> int \<Rightarrow> int list" where
  "py_range a b = map (\<lambda>k. a + int k) [0..<nat (b - a)]"

text \<open>A list comprehension whose element expression may raise: the first error wins.\<close>

fun traverse :: "('a \<Rightarrow> error + 'b) \<Rightarrow> 'a list \<Rightarrow> error + 'b list" where
  "traverse f [] = Inr []"
| "traverse f (x # xs) =
     (case f x of
        Inl e \<Rightarrow> Inl e
      | Inr y \<Rightarrow> (case traverse f xs of Inl e \<Rightarrow> Inl e | Inr ys \<Rightarrow> Inr (y # ys)))"

section \<open>Coefficient algebra\<close>

text \<open>
  A coefficient set is indexed \<^verbatim>\<open>[l][zeta]\<close> (one list of zeta entries per angular momentum
  channel), a coefficient tensor \<^verbatim>\<open>[t][l][zeta]\<close> with the atom type first. The entry of one
  zeta function (its list of spherical Bessel coefficients) is never inspected by the functions
  below, so its type is left open.
\<close>

type_synonym 'a coefs = "'a list list"
type_synonym 'a tensor = "'a list list list"

text \<open>
  \<^verbatim>\<open>_coef_subset(nzeta, nzeta0, data)\<close>. With \<^verbatim>\<open>nzeta0 is None\<close> the entries
  \<^verbatim>\<open>data[l][iz]\<close> for \<^verbatim>\<open>iz in range(nz)\<close> are collected; otherwise the two assertions are
  checked first, \<^verbatim>\<open>nzeta0\<close> is padded with zeros, and \<^verbatim>\<open>data[l][j]\<close> is collected for
  \<^verbatim>\<open>j in range(nzeta0[l], nzeta[l])\<close>.
\<close>

definition coef_subset :: "int list \<Rightarrow> int list option \<Rightarrow> 'a coefs \<Rightarrow> error + 'a tensor" where
  "coef_subset nzeta nzeta0 data =
     (case nzeta0 of
        None \<Rightarrow>
          (case traverse (\<lambda>(l, nz). traverse (\<lambda>iz. getitem2 data (int l) iz) (py_range 0 nz))
                  (enumerate 0 nzeta) of
             Inl e \<Rightarrow> Inl e
           | Inr sub \<Rightarrow> Inr [sub])
      | Some nz0 \<Rightarrow>
          if \<not> length nz0 \<le> length nzeta
          then Inl (AssertionError (SizeError (length nzeta) (length nz0)))
          else
            let nzeta0' = nz0 @ replicate (length nzeta - length nz0) 0 in
            if \<not> list_all (\<lambda>(nz, nz0). nz0 \<le> nz) (zip nzeta nzeta0')
            then Inl (AssertionError (NotHierarchical nzeta0' nzeta))
            else
              let iz_subset = map (\<lambda>(iz, jz). py_range iz jz) (zip nzeta0' nzeta) in
              (case traverse (\<lambda>(l, jz). traverse (\<lambda>j. getitem2 data (int l) j) jz)
                      (enumerate 0 iz_subset) of
                 Inl e \<Rightarrow> Inl e
               | Inr sub \<Rightarrow> Inr [sub]))"

text \<open>
  Modelled from the spec: \<^verbatim>\<open>merge\<close> of \<^verbatim>\<open>SIAB.spillage.listmanip\<close>, which the functions here
  import and whose source is outside the files embedded here. The spec: "Merge: concatenates a frozen
  coefficient tensor with a newly optimized tensor along the zeta axis, per channel,
  preserving channel order." \<open>merge1\<close> is the merge at depth 1 (of two \<^verbatim>\<open>[l][zeta]\<close>
  coefficient sets), \<open>merge2\<close> the merge at depth 2 (of two \<^verbatim>\<open>[t][l][zeta]\<close> tensors, the call
  \<^verbatim>\<open>merge(coef_inner, coefs_shell, 2)\<close>). A channel that only one operand has is kept as it
  is, so that no coefficient is dropped and the order of the channels is preserved.
\<close>

fun merge1 :: "'a coefs \<Rightarrow> 'a coefs \<Rightarrow> 'a coefs" where
  "merge1 [] ys = ys"
| "merge1 xs [] = xs"
| "merge1 (x # xs) (y # ys) = (x @ y) # merge1 xs ys"

fun merge2 :: "'a tensor \<Rightarrow> 'a tensor \<Rightarrow> 'a tensor" where
  "merge2 [] ys = ys"
| "merge2 xs [] = xs"
| "merge2 (x # xs) (y # ys) = merge1 x y # merge2 xs ys"

text \<open>
  The specification of \<^verbatim>\<open>_coef_subset\<close> in the words of its documentation: per channel
  \<open>l\<close>, the entries with zeta index in \<open>[nzeta0[l], nzeta[l])\<close>, where a channel that
  \<open>nzeta0\<close> does not list has the baseline 0.
\<close>

definition base :: "int list \<Rightarrow> nat \<Rightarrow> int" where
  "base nzeta0 l = (if l < length nzeta0 then nzeta0 ! l else 0)"

definition zeta_slice :: "int list \<Rightarrow> int list \<Rightarrow> 'a coefs \<Rightarrow> 'a coefs" where
  "zeta_slice nzeta0 nzeta data =
     map (\<lambda>l. take (nat (nzeta ! l - base nzeta0 l)) (drop (nat (base nzeta0 l)) (data ! l)))
       [0..<length nzeta]"

text \<open>
  The Python expression \<^verbatim>\<open>merge(r1, r2, 2)\<close> whose arguments may raise: the arguments are
  evaluated from left to right and the first exception propagates.
\<close>

definition merge_results :: "error + 'a tensor \<Rightarrow> error + 'a tensor \<Rightarrow> error + 'a tensor" where
  "merge_results r1 r2 =
     (case r1 of Inl e \<Rightarrow> Inl e
      | Inr a \<Rightarrow> (case r2 of Inl e \<Rightarrow> Inl e | Inr b \<Rightarrow> Inr (merge2 a b)))"

section \<open>Peeling a coefficient set into levels\<close>

text \<open>
  \<^verbatim>\<open>_peel(coef, nzeta_lvl_tot)\<close> works on \<^verbatim>\<open>coef_lvl = [deepcopy(coef)]\<close>. For every
  \<^verbatim>\<open>nzeta_lvl\<close> of \<^verbatim>\<open>reversed(nzeta_lvl_tot)\<close> it builds a new level from the entries that
  \<^verbatim>\<open>coef_lvl[-1][l].pop(0)\<close> removes, \<^verbatim>\<open>nzeta\<close> times for each channel \<open>l\<close>, from the front of
  the element that is last in \<^verbatim>\<open>coef_lvl\<close> at that moment, and appends the new level. The
  result is \<^verbatim>\<open>coef_lvl[1:][::-1]\<close>.

  First the function on values: the deep copy is the function's own, and each level it builds
  is a list of new channel lists, so the lists it pops from are its own too.
\<close>

text \<open>\<^verbatim>\<open>[xs.pop(0) for _ in range(k)]\<close>: the entries removed and the list left.\<close>

fun pops :: "nat \<Rightarrow> 'a list \<Rightarrow> error + ('a list \<times> 'a list)" where
  "pops 0 xs = Inr ([], xs)"
| "pops (Suc k) [] = Inl IndexError"
| "pops (Suc k) (x # xs) =
     (case pops k xs of Inl e \<Rightarrow> Inl e | Inr (ys, rest) \<Rightarrow> Inr (x # ys, rest))"

text \<open>
  The comprehension over \<^verbatim>\<open>enumerate(nzeta_lvl)\<close>, from channel \<open>l\<close> on: the new level and the
  tensor popped from, as it is left. With \<^verbatim>\<open>nzeta <= 0\<close> the inner comprehension runs no
  iteration and does not index \<^verbatim>\<open>coef_lvl[-1]\<close>.
\<close>

fun peel_level :: "nat \<Rightarrow> int list \<Rightarrow> 'a coefs \<Rightarrow> error + ('a coefs \<times> 'a coefs)" where
  "peel_level l [] lst = Inr ([], lst)"
| "peel_level l (nzeta # nzs) lst =
     (if nzeta \<le> 0 then
        (case peel_level (Suc l) nzs lst of
           Inl e \<Rightarrow> Inl e
         | Inr (new, lst') \<Rightarrow> Inr ([] # new, lst'))
      else if \<not> l < length lst then Inl IndexError
      else
        (case pops (nat nzeta) (lst ! l) of
           Inl e \<Rightarrow> Inl e
         | Inr (taken, rest) \<Rightarrow>
             (case peel_level (Suc l) nzs (lst[l := rest]) of
                Inl e \<Rightarrow> Inl e
              | Inr (new, lst') \<Rightarrow> Inr (taken # new, lst'))))"

text \<open>The loop over \<^verbatim>\<open>reversed(nzeta_lvl_tot)\<close>; \<open>coef_lvl\<close> is never empty.\<close>

fun peel_loop :: "int list list \<Rightarrow> 'a coefs list \<Rightarrow> error + 'a coefs list" where
  "peel_loop [] coef_lvl = Inr coef_lvl"
| "peel_loop (nzeta_lvl # rest) coef_lvl =
     (case peel_level 0 nzeta_lvl (last coef_lvl) of
        Inl e \<Rightarrow> Inl e
      | Inr (new, lst') \<Rightarrow> peel_loop rest (butlast coef_lvl @ [lst', new]))"

definition peel :: "'a coefs \<Rightarrow> int list list \<Rightarrow> error + 'a coefs list" where
  "peel coef nzeta_lvl_tot =
     (case peel_loop (rev nzeta_lvl_tot) [coef] of
        Inl e \<Rightarrow> Inl e
      | Inr coef_lvl \<Rightarrow> Inr (rev (tl coef_lvl)))"

text \<open>Merging a list of levels in order, innermost first: \<^verbatim>\<open>merge(merge(T1, T2, 1), T3, 1)\<close> ...\<close>

definition merge_levels :: "'a coefs list \<Rightarrow> 'a coefs" where
  "merge_levels ts = foldl merge1 [] ts"

text \<open>
  A coefficient set has the shape \<open>nzeta\<close> when it has one channel per component of \<open>nzeta\<close>
  and \<open>nzeta[l]\<close> zeta entries in channel \<open>l\<close>.
\<close>

definition has_shape :: "'a coefs \<Rightarrow> int list \<Rightarrow> bool" where
  "has_shape c nzeta \<longleftrightarrow>
     length c = length nzeta \<and> (\<forall>l<length nzeta. int (length (c ! l)) = nzeta ! l)"

text \<open>
  Levels \<open>ts\<close> (innermost first) fit the zeta counts \<open>nzs\<close> of the shells when level \<open>i\<close> has
  the channels of \<open>nzs[i]\<close> and holds, in channel \<open>l\<close>, the \<open>nzs[i][l] - nzs[i-1][l]\<close> zeta
  entries that shell \<open>i\<close> adds to shell \<open>i - 1\<close> (a channel that the previous shell does not
  list counting as 0; \<open>prev\<close> is the zeta count of the shell before the first level).
\<close>

fun levels_fit :: "int list \<Rightarrow> int list list \<Rightarrow> 'a coefs list \<Rightarrow> bool" where
  "levels_fit prev [] [] \<longleftrightarrow> True"
| "levels_fit prev (nzeta # nzs) (t # ts) \<longleftrightarrow>
     length prev \<le> length nzeta \<and> length t = length nzeta \<and>
     (\<forall>l<length nzeta. int (length (t ! l)) = nzeta ! l - base prev l) \<and>
     levels_fit nzeta nzs ts"
| "levels_fit prev _ _ \<longleftrightarrow> False"

section \<open>Peeling in a store of list objects\<close>

text \<open>
  Whether \<^verbatim>\<open>_peel\<close> changes the list that its caller passes is a question about objects, not
  values. A store holds the list objects that matter: the channel lists (lists of zeta
  entries; the entries themselves are never changed by \<^verbatim>\<open>_peel\<close> and are kept as values) and
  the coefficient sets (lists of references to channel lists). A reference is the position
  of the object in its table, and a new object is put at the end of its table.
\<close>

record 'a store =
  chans :: "'a list list"
  tens :: "nat list list"

definition alloc_chan :: "'a list \<Rightarrow> 'a store \<Rightarrow> nat \<times> 'a store" where
  "alloc_chan xs s = (length (chans s), s\<lparr>chans := chans s @ [xs]\<rparr>)"

definition alloc_tens :: "nat list \<Rightarrow> 'a store \<Rightarrow> nat \<times> 'a store" where
  "alloc_tens rs s = (length (tens s), s\<lparr>tens := tens s @ [rs]\<rparr>)"

text \<open>The coefficient set that a reference stands for.\<close>

definition read_coefs :: "'a store \<Rightarrow> nat \<Rightarrow> 'a coefs" where
  "read_coefs s c = map (\<lambda>r. chans s ! r) (tens s ! c)"

text \<open>
  \<^verbatim>\<open>deepcopy(coef)\<close> copies every channel list once: a channel list that occurs twice in
  \<^verbatim>\<open>coef\<close> is one object in the copy too (the memo of \<^verbatim>\<open>deepcopy\<close>).
\<close>

fun copy_chans :: "(nat \<times> nat) list \<Rightarrow> nat list \<Rightarrow> 'a store \<Rightarrow> nat list \<times> 'a store" where
  "copy_chans memo [] s = ([], s)"
| "copy_chans memo (r # rs) s =
     (case map_of memo r of
        Some r' \<Rightarrow> (case copy_chans memo rs s of (rs', s') \<Rightarrow> (r' # rs', s'))
      | None \<Rightarrow>
          (case alloc_chan (chans s ! r) s of
             (r', s1) \<Rightarrow>
               (case copy_chans ((r, r') # memo) rs s1 of (rs', s') \<Rightarrow> (r' # rs', s'))))"

definition deepcopy :: "nat \<Rightarrow> 'a store \<Rightarrow> nat \<times> 'a store" where
  "deepcopy c s = (case copy_chans [] (tens s ! c) s of (rs', s') \<Rightarrow> alloc_tens rs' s')"

text \<open>
  \<^verbatim>\<open>[coef_lvl[-1][l].pop(0) for _ in range(k)]\<close>, where \<open>t\<close> refers to \<^verbatim>\<open>coef_lvl[-1]\<close>: every
  iteration indexes the coefficient set and removes the first entry of the channel list in
  place. A raised exception leaves the store as it is at that moment.
\<close>

fun pops_store :: "nat \<Rightarrow> nat \<Rightarrow> nat \<Rightarrow> 'a store \<Rightarrow> (error + 'a list) \<times> 'a store" where
  "pops_store 0 t l s = (Inr [], s)"
| "pops_store (Suc k) t l s =
     (if \<not> l < length (tens s ! t) then (Inl IndexError, s)
      else
        let r = tens s ! t ! l in
        (case chans s ! r of
           [] \<Rightarrow> (Inl IndexError, s)
         | x # xs \<Rightarrow>
             (case pops_store k t l (s\<lparr>chans := (chans s)[r := xs]\<rparr>) of
                (Inl e, s') \<Rightarrow> (Inl e, s')
              | (Inr ys, s') \<Rightarrow> (Inr (x # ys), s'))))"

text \<open>The comprehension over \<^verbatim>\<open>enumerate(nzeta_lvl)\<close>: each inner list is a new channel list.\<close>

fun level_store :: "nat \<Rightarrow> int list \<Rightarrow> nat \<Rightarrow> 'a store \<Rightarrow> (error + nat list) \<times> 'a store" where
  "level_store l [] t s = (Inr [], s)"
| "level_store l (nzeta # nzs) t s =
     (case pops_store (nat nzeta) t l s of
        (Inl e, s1) \<Rightarrow> (Inl e, s1)
      | (Inr taken, s1) \<Rightarrow>
          (case alloc_chan taken s1 of
             (r, s2) \<Rightarrow>
               (case level_store (Suc l) nzs t s2 of
                  (Inl e, s3) \<Rightarrow> (Inl e, s3)
                | (Inr rs, s3) \<Rightarrow> (Inr (r # rs), s3))))"

text \<open>The loop; \<open>coef_lvl\<close> is the local list of references to coefficient sets.\<close>

fun loop_store :: "int list list \<Rightarrow> nat list \<Rightarrow> 'a store \<Rightarrow> (error + nat list) \<times> 'a store" where
  "loop_store [] coef_lvl s = (Inr coef_lvl, s)"
| "loop_store (nzeta_lvl # rest) coef_lvl s =
     (case level_store 0 nzeta_lvl (last coef_lvl) s of
        (Inl e, s1) \<Rightarrow> (Inl e, s1)
      | (Inr rs, s1) \<Rightarrow>
          (case alloc_tens rs s1 of (t, s2) \<Rightarrow> loop_store rest (coef_lvl @ [t]) s2))"

definition peel_store :: "nat \<Rightarrow> int list list \<Rightarrow> 'a store \<Rightarrow> (error + nat list) \<times> 'a store" where
  "peel_store coef nzeta_lvl_tot s =
     (case deepcopy coef s of
        (c, s0) \<Rightarrow>
          (case loop_store (rev nzeta_lvl_tot) [c] s0 of
             (Inl e, s1) \<Rightarrow> (Inl e, s1)
           | (Inr coef_lvl, s1) \<Rightarrow> (Inr (rev (tl coef_lvl)), s1)))"

text \<open>
  Every object of the store \<open>s\<close> is in the store \<open>s'\<close>, at its place and with its content.
\<close>

definition untouched :: "'a store \<Rightarrow> 'a store \<Rightarrow> bool" where
  "untouched s s' \<longleftrightarrow>
     take (length (chans s)) (chans s') = chans s \<and> take (length (tens s)) (tens s') = tens s"

text \<open>The references \<open>rs\<close> are to channel lists made after the store \<open>s0\<close>.\<close>

definition fresh_for :: "'a store \<Rightarrow> nat list \<Rightarrow> bool" where
  "fresh_for s0 rs \<longleftrightarrow> (\<forall>r\<in>set rs. length (chans s0) \<le> r)"

text \<open>A store with one coefficient set of three channels.\<close>

definition example_store :: "nat store" where
  "example_store = \<lparr>chans = [[10, 11, 12], [20, 21], [30]], tens = [[0, 1, 2]]\<rparr>"

text \<open>
  The function on values and the function on the store agree when the channel lists of the
  argument are distinct objects of the store. The relations of that proof: a well-formed
  reference to a coefficient set; what one level leaves (the new channel lists \<open>rs\<close> hold
  the new level, the coefficient set popped from reads as the value model says, and no other
  channel list of the store has changed); the invariant of the loop (only the last
  coefficient set of \<open>coef_lvl\<close> is popped from, and it shares no channel list with the
  others).
\<close>

definition wf_coefs :: "'a store \<Rightarrow> nat \<Rightarrow> bool" where
  "wf_coefs s t \<longleftrightarrow>
     t < length (tens s) \<and> distinct (tens s ! t) \<and> (\<forall>r\<in>set (tens s ! t). r < length (chans s))"

definition level_rel :: "'a store \<Rightarrow> nat \<Rightarrow> 'a store \<Rightarrow> nat list \<Rightarrow> 'a coefs \<Rightarrow> 'a coefs \<Rightarrow> bool" where
  "level_rel s t s' rs new lst' \<longleftrightarrow>
     tens s' = tens s \<and> length (chans s) \<le> length (chans s') \<and>
     map (\<lambda>r. chans s' ! r) rs = new \<and> read_coefs s' t = lst' \<and>
     (\<forall>r\<in>set rs. length (chans s) \<le> r \<and> r < length (chans s')) \<and> distinct rs \<and>
     (\<forall>a<length (chans s). a \<notin> set (tens s ! t) \<longrightarrow> chans s' ! a = chans s ! a)"

definition refines_level :: "nat \<Rightarrow> int list \<Rightarrow> nat \<Rightarrow> 'a store \<Rightarrow> bool" where
  "refines_level l nzs t s \<longleftrightarrow>
     (case peel_level l nzs (read_coefs s t) of
        Inl e \<Rightarrow> fst (level_store l nzs t s) = Inl e
      | Inr (new, lst') \<Rightarrow>
          (\<exists>rs s'. level_store l nzs t s = (Inr rs, s') \<and> level_rel s t s' rs new lst'))"

definition loop_inv :: "'a store \<Rightarrow> nat list \<Rightarrow> bool" where
  "loop_inv s addrs \<longleftrightarrow>
     addrs \<noteq> [] \<and> wf_coefs s (last addrs) \<and>
     (\<forall>t\<in>set (butlast addrs). t < length (tens s) \<and>
        (\<forall>r\<in>set (tens s ! t). r < length (chans s) \<and> r \<notin> set (tens s ! last addrs)))"

definition refines_loop :: "int list list \<Rightarrow> nat list \<Rightarrow> 'a store \<Rightarrow> bool" where
  "refines_loop nzss addrs s \<longleftrightarrow>
     (case peel_loop nzss (map (read_coefs s) addrs) of
        Inl e \<Rightarrow> fst (loop_store nzss addrs s) = Inl e
      | Inr coef_lvl \<Rightarrow>
          (\<exists>addrs' s'. loop_store nzss addrs s = (Inr addrs', s') \<and>
             map (read_coefs s') addrs' = coef_lvl))"

section \<open>The initial guess and the onion optimisation\<close>

text \<open>\<^verbatim>\<open>xs[a:b]\<close>: a slice never raises; its bounds are clipped to the list.\<close>

definition py_slice :: "'a list \<Rightarrow> int \<Rightarrow> int \<Rightarrow> 'a list" where
  "py_slice xs a b =
     (let n = int (length xs);
          a' = (if a < 0 then max (n + a) 0 else min a n);
          b' = (if b < 0 then max (n + b) 0 else min b n)
      in take (nat (b' - a')) (drop (nat a') xs))"

text \<open>
  The recipe \<^verbatim>\<open>guess\<close> of \<^verbatim>\<open>_make_guess\<close>. Without the key \<^verbatim>\<open>"orb_mat"\<close> it is a recipe for the
  jy basis: what \<^verbatim>\<open>_coef_guess\<close> reads from it is the band indexes \<^verbatim>\<open>[ispin][l]\<close> that
  \<^verbatim>\<open>_nzeta_analysis\<close> finds in the files of the guess directory, and the call of
  \<^verbatim>\<open>initgen_jy\<close> as a function of its arguments \<^verbatim>\<open>ibands\<close> and \<^verbatim>\<open>nzeta\<close>. With the key it is a
  recipe for the pw basis, read through the coefficient set that \<^verbatim>\<open>initgen_pw(**guess)\<close>
  returns. \<^verbatim>\<open>initgen_jy\<close> and \<^verbatim>\<open>initgen_pw\<close> belong to \<^verbatim>\<open>SIAB.spillage.spillage\<close>.
\<close>

datatype 'a guess =
    GuessJY "nat list list list" "nat list \<Rightarrow> int list \<Rightarrow> 'a coefs"
  | GuessPW "'a coefs"

text \<open>\<^verbatim>\<open>_coef_guess(guess, nzeta, excluded)\<close>.\<close>

definition coef_guess :: "'a guess \<Rightarrow> int list \<Rightarrow> int list option \<Rightarrow> error + 'a tensor" where
  "coef_guess guess nzeta excluded =
     (case guess of
        GuessJY ib initgen_jy \<Rightarrow>
          let excluded' = (case excluded of None \<Rightarrow> replicate (length nzeta) 0 | Some e \<Rightarrow> e) in
          if \<not> 0 < length ib then Inl (AssertionError NoBandIndexFound)
          else
            (case traverse
                    (\<lambda>ibsp. traverse
                       (\<lambda>(l, (nz, nz0)).
                          case getitem ibsp (int l) of
                            Inl e \<Rightarrow> Inl e
                          | Inr bands \<Rightarrow>
                              Inr (py_slice bands ((2 * int l + 1) * nz0) ((2 * int l + 1) * nz)))
                       (enumerate 0 (zip nzeta excluded')))
                    ib of
               Inl e \<Rightarrow> Inl e
             | Inr ib' \<Rightarrow>
                 let ib'' = map concat ib' in
                 if \<not> 0 < length (hd ib'')
                 then Inl (AssertionError (NoBandIndexFoundFor (map (map int) ib'')))
                 else Inr [initgen_jy (hd ib'') (map (\<lambda>(nz, nz0). nz - nz0) (zip nzeta excluded'))])
      | GuessPW coef_init \<Rightarrow> coef_subset nzeta excluded coef_init)"

text \<open>
  \<^verbatim>\<open>_do_onion_opt\<close>. The minimizer (\<^verbatim>\<open>Spillage_jy\<close> or \<^verbatim>\<open>Spillage_pw\<close>, not part of this
  file) enters through the function \<open>opt\<close>: \<open>opt coef_init coef_inner iconfs ibands\<close> is
  the result of \<^verbatim>\<open>minimizer.opt(coef_init, coef_inner, iconfs_, ibands_, options, nthreads)\<close>,
  the optimised coefficients of the new zeta functions of the shell.

  The loop runs over \<^verbatim>\<open>zip(range(norb), deps, nzeta, iconfs, ibands)\<close>, in the order of the
  lists; \<^verbatim>\<open>deps[iorb]\<close> is the element \<^verbatim>\<open>index_\<close> of the same tuple. \<^verbatim>\<open>coefs\<close> starts as
  \<^verbatim>\<open>[None] * norb\<close> and \<^verbatim>\<open>coefs[iorb]\<close> is assigned once per iteration.
\<close>

fun onion_loop ::
  "('a tensor \<Rightarrow> 'a tensor option \<Rightarrow> 'ic \<Rightarrow> 'ib \<Rightarrow> 'a tensor) \<Rightarrow> 'a guess \<Rightarrow> int list list \<Rightarrow>
   (nat \<times> int option \<times> int list \<times> 'ic \<times> 'ib) list \<Rightarrow> 'a tensor option list \<Rightarrow>
   error + 'a tensor option list" where
  "onion_loop opt guess nzeta [] coefs = Inr coefs"
| "onion_loop opt guess nzeta ((iorb, index, nzeta', iconfs', ibands') # rest) coefs =
     (case (case index of
              None \<Rightarrow> Inr None
            | Some i \<Rightarrow> (case getitem nzeta i of Inl e \<Rightarrow> Inl e | Inr nz \<Rightarrow> Inr (Some nz))) of
        Inl e \<Rightarrow> Inl e
      | Inr nzeta_inner \<Rightarrow>
          (case coef_guess guess nzeta' nzeta_inner of
             Inl e \<Rightarrow> Inl e
           | Inr coef_init \<Rightarrow>
               (case (case index of None \<Rightarrow> Inr None | Some i \<Rightarrow> getitem coefs i) of
                  Inl e \<Rightarrow> Inl e
                | Inr coef_inner \<Rightarrow>
                    let coefs_shell = opt coef_init coef_inner iconfs' ibands' in
                    onion_loop opt guess nzeta rest
                      (coefs[iorb := Some (case coef_inner of
                                             None \<Rightarrow> coefs_shell
                                           | Some inner \<Rightarrow> merge2 inner coefs_shell)]))))"

definition do_onion_opt ::
  "('a tensor \<Rightarrow> 'a tensor option \<Rightarrow> 'ic \<Rightarrow> 'ib \<Rightarrow> 'a tensor) \<Rightarrow> int list list \<Rightarrow> 'ic list \<Rightarrow>
   'ib list \<Rightarrow> int option list \<Rightarrow> 'a guess \<Rightarrow> error + 'a tensor option list" where
  "do_onion_opt opt nzeta iconfs ibands deps guess =
     (let norb = length nzeta in
      onion_loop opt guess nzeta
        (zip [0..<norb] (zip deps (zip nzeta (zip iconfs ibands))))
        (replicate norb None))"

section \<open>Discovery of the overlap matrix files\<close>

text \<open>
  \<^verbatim>\<open>_orb_matrices(folder)\<close> matches the names of the regular files of \<^verbatim>\<open>folder\<close> against two
  regular expressions with \<^verbatim>\<open>re.match\<close>, which anchors a pattern at the start of the name only.
  File names are strings of 8-bit characters here, \<^verbatim>\<open>\d\<close> is one of the digits 0 to 9, and
  \<^verbatim>\<open>.\<close> is any character but the newline.
\<close>

definition starts_with :: "string \<Rightarrow> string \<Rightarrow> bool" where
  "starts_with p s \<longleftrightarrow> take (length p) s = p"

definition any_char :: "char \<Rightarrow> bool" where
  "any_char c \<longleftrightarrow> c \<noteq> CHR 0x0A"

definition is_digit :: "char \<Rightarrow> bool" where
  "is_digit c \<longleftrightarrow> c \<in> set ''0123456789''"

text \<open>The tail \<^verbatim>\<open>([01]).dat\<close> that both patterns end with.\<close>

fun match_order_dat :: "string \<Rightarrow> bool" where
  "match_order_dat (d # c # rest) \<longleftrightarrow> (d = CHR ''0'' \<or> d = CHR ''1'') \<and> any_char c \<and> starts_with ''dat'' rest"
| "match_order_dat _ \<longleftrightarrow> False"

text \<open>\<^verbatim>\<open>re.match(r"orb_matrix.([01]).dat", f)\<close>\<close>

definition match_old :: "string \<Rightarrow> bool" where
  "match_old f \<longleftrightarrow>
     starts_with ''orb_matrix'' f \<and>
     (case drop (length ''orb_matrix'') f of
        c # rest \<Rightarrow> any_char c \<and> match_order_dat rest
      | [] \<Rightarrow> False)"

text \<open>
  \<^verbatim>\<open>re.match(r"orb_matrix_rcut(\d+)deriv([01]).dat", f)\<close>: the digits are followed by the letter
  d, so the greedy \<^verbatim>\<open>\d+\<close> takes all of them.
\<close>

definition match_new :: "string \<Rightarrow> bool" where
  "match_new f \<longleftrightarrow>
     starts_with ''orb_matrix_rcut'' f \<and>
     (let r = drop (length ''orb_matrix_rcut'') f in
      takeWhile is_digit r \<noteq> [] \<and>
      starts_with ''deriv'' (dropWhile is_digit r) \<and>
      match_order_dat (drop (length ''deriv'') (dropWhile is_digit r)))"

text \<open>\<^verbatim>\<open>os.path.join(folder, f)\<close> for a file name \<open>f\<close> of the directory (no separator in it).\<close>

definition path_join :: "string \<Rightarrow> string \<Rightarrow> string" where
  "path_join folder f =
     (if folder = [] \<or> last folder = CHR ''/'' then folder @ f else folder @ ''/'' @ f)"

text \<open>\<^verbatim>\<open>[(xs[i], xs[i+1]) for i in range(0, len(xs), 2)]\<close>\<close>

fun pairs :: "'a list \<Rightarrow> error + ('a \<times> 'a) list" where
  "pairs [] = Inr []"
| "pairs [x] = Inl IndexError"
| "pairs (x # y # rest) = (case pairs rest of Inl e \<Rightarrow> Inl e | Inr ps \<Rightarrow> Inr ((x, y) # ps))"

text \<open>
  \<open>listing\<close> is the list of the regular files of the folder in the order of \<^verbatim>\<open>os.listdir\<close>.
  \<^verbatim>\<open>sorted\<close> orders strings lexicographically, character by character (the order of
  \<open>char list\<close>). The result is the sequence of the pairs that the generator yields; the
  body of the generator runs when the first pair is asked for.
\<close>

definition orb_matrices :: "string \<Rightarrow> string list \<Rightarrow> error + (string \<times> string) list" where
  "orb_matrices folder listing =
     (let old_files = map (path_join folder) (filter match_old listing);
          new_files = map (path_join folder) (filter match_new listing)
      in if old_files \<noteq> [] \<and> new_files \<noteq> [] then Inl (AssertionError NoMessage)
         else if \<not> (length old_files = 2 \<or> old_files = []) then Inl (AssertionError NoMessage)
         else if \<not> (length new_files mod 2 = 0 \<or> new_files = []) then Inl (AssertionError NoMessage)
         else if old_files \<noteq> [] then Inr [(old_files ! 0, old_files ! 1)]
         else if new_files \<noteq> [] then pairs (sort new_files)
         else Inl TypeError)"

text \<open>
  The order that the comment of \<^verbatim>\<open>_orb_matrices\<close> names, "new files are sorted by rcut and
  deriv": the cutoff radius of a new-style name as a number, and its derivative order.
\<close>

definition digit_val :: "char \<Rightarrow> nat" where
  "digit_val c = of_char c - of_char CHR ''0''"

definition rcut_of :: "string \<Rightarrow> nat" where
  "rcut_of f = foldl (\<lambda>n c. 10 * n + digit_val c) 0
                 (takeWhile is_digit (drop (length ''orb_matrix_rcut'') f))"

definition deriv_of :: "string \<Rightarrow> nat" where
  "deriv_of f = digit_val (hd (drop (length ''deriv'')
                  (dropWhile is_digit (drop (length ''orb_matrix_rcut'') f))))"

section \<open>Inference of the zeta counts\<close>

text \<open>
  \<^verbatim>\<open>_nzeta_infer(folder, nband, pop, svd_thr)\<close> reads the results of one ABACUS run. What it
  reads is gathered in a record: the value of \<^verbatim>\<open>nspin\<close> in \<^verbatim>\<open>INPUT\<close> and in the running log,
  the weights \<^verbatim>\<open>wk\<close> of the k-points, the atom counts \<^verbatim>\<open>natom\<close>, the occupations \<^verbatim>\<open>occ[is][ik]\<close>
  of \<^verbatim>\<open>istate.info\<close>, and for every index \<^verbatim>\<open>isk\<close> the wave function file
  \<^verbatim>\<open>WFC_NAO_*{isk+1}.txt\<close>: its number of bands \<^verbatim>\<open>wfc.shape[1]\<close>, the position of its
  k-point among the k-points of \<^verbatim>\<open>istate.info\<close> (if it is there), and the singular values per
  angular momentum that \<^verbatim>\<open>wfc_analysis_api\<close> computes from it for a given \<^verbatim>\<open>nband\<close>. The
  floating point numbers of numpy are taken as real numbers.
\<close>

record kfile =
  wfc_nbands :: int
  kpt_index :: "nat option"
  sigma :: "int \<Rightarrow> real list list"

record config =
  input_nspin :: int
  running_nspin :: int
  wk :: "real list"
  natom :: "nat list"
  occ :: "real list list list"
  kfiles :: "kfile list"

text \<open>
  The argument \<^verbatim>\<open>nband\<close>: an integer, a string, or something else (a list, a range).
  \<^verbatim>\<open>assert isinstance(nband, (int, str))\<close> rejects the last; a string is resolved by
  \<^verbatim>\<open>eval('n' + nband)\<close>, that is \<^verbatim>\<open>'occ'\<close> to \<^verbatim>\<open>nocc\<close> and \<^verbatim>\<open>'all'\<close> to \<^verbatim>\<open>nall\<close>. Any other
  string is an expression that Python evaluates over the local names; it is taken as an
  unknown name here.
\<close>

datatype nband = NInt int | NStr string | NOther

definition resolve :: "nband \<Rightarrow> int \<Rightarrow> int \<Rightarrow> error + int" where
  "resolve nband nocc nall =
     (case nband of
        NOther \<Rightarrow> Inl (AssertionError NoMessage)
      | NInt n \<Rightarrow> Inr n
      | NStr s \<Rightarrow> if s = ''occ'' then Inr nocc else if s = ''all'' then Inr nall else Inl NameError)"

text \<open>\<^verbatim>\<open>np.resize(a, n)\<close> repeats \<open>a\<close> to the new length (zeros when \<open>a\<close> is empty).\<close>

definition np_resize :: "real list \<Rightarrow> nat \<Rightarrow> real list" where
  "np_resize a n = (if a = [] then replicate n 0 else take n (concat (replicate n a)))"

text \<open>\<^verbatim>\<open>a + b\<close> on one-dimensional arrays, with numpy's broadcasting of a length 1.\<close>

definition np_add :: "real list \<Rightarrow> real list \<Rightarrow> error + real list" where
  "np_add a b =
     (if length a = length b then Inr (map (\<lambda>(x, y). x + y) (zip a b))
      else if length b = 1 then Inr (map (\<lambda>x. x + hd b) a)
      else if length a = 1 then Inr (map (\<lambda>y. hd a + y) b)
      else Inl ValueError)"

text \<open>A loop whose body may raise.\<close>

fun foldE :: "('a \<Rightarrow> 's \<Rightarrow> error + 's) \<Rightarrow> 'a list \<Rightarrow> 's \<Rightarrow> error + 's" where
  "foldE f [] s = Inr s"
| "foldE f (x # xs) s = (case f x s of Inl e \<Rightarrow> Inl e | Inr s' \<Rightarrow> foldE f xs s')"

text \<open>
  The body of the loop \<^verbatim>\<open>for isk in range(nspin*len(wk))\<close>; the state is the pair of the
  variables \<^verbatim>\<open>nband\<close> (rebound to the resolved integer) and \<^verbatim>\<open>nzeta\<close>.
\<close>

definition infer_step :: "real \<Rightarrow> config \<Rightarrow> nat \<Rightarrow> nband \<times> real list \<Rightarrow> error + nband \<times> real list" where
  "infer_step svd_thr c isk st =
     (let nband = fst st; nzeta = snd st;
          nspin = input_nspin c;
          ik = isk mod length (wk c);
          ispin = int isk mod nspin;
          w = wk c ! ik
      in if \<not> isk < length (kfiles c) then Inl OSError
         else
           let f = kfiles c ! isk in
           (case kpt_index f of
              None \<Rightarrow> Inl IndexError
            | Some ik' \<Rightarrow>
                (case getitem2 (occ c) ispin (int ik') of
                   Inl e \<Rightarrow> Inl e
                 | Inr occs \<Rightarrow>
                     let nocc = int (length (filter (\<lambda>x. 0 < x) occs));
                         nall = int (length occs)
                     in (case resolve nband nocc nall of
                           Inl e \<Rightarrow> Inl e
                         | Inr n \<Rightarrow>
                             if \<not> n \<le> wfc_nbands f
                             then Inl (AssertionError (MoreBandsThanCalculated n (wfc_nbands f)))
                             else
                               let nz = map (\<lambda>sigma_l. real (length (filter (\<lambda>x. svd_thr < \<bar>x\<bar>) sigma_l)))
                                          (sigma f n)
                               in (case np_add (np_resize nzeta (max (length nzeta) (length nz)))
                                          (map (\<lambda>x. x * w / real_of_int nspin) nz) of
                                     Inl e \<Rightarrow> Inl e
                                   | Inr nzeta' \<Rightarrow> Inr (NInt n, nzeta'))))))"

definition nzeta_infer :: "config \<Rightarrow> nband \<Rightarrow> real \<Rightarrow> error + real list" where
  "nzeta_infer c nband svd_thr =
     (if input_nspin c \<noteq> running_nspin c
      then Inl (AssertionError (NspinDiffers (input_nspin c) (running_nspin c)))
      else
        (case foldE (infer_step svd_thr c) [0..<nat (input_nspin c * int (length (wk c)))] (nband, [0]) of
           Inl e \<Rightarrow> Inl e
         | Inr st \<Rightarrow>
             if length (natom c) \<noteq> 1 then Inl (AssertionError (MultipleAtomTypes (length (natom c))))
             else Inr (snd st)))"

text \<open>
  \<^verbatim>\<open>_nzeta_mean_conf(nbands, folders, statistics, pop)\<close>. \<^verbatim>\<open>nbands\<close> is one value for all
  folders or a list with one value per folder. The vectors of the folders are reshaped to
  the longest shape, which numpy refuses with a ValueError for a vector of another size, and
  then reduced along the folders: \<^verbatim>\<open>np.max(nzeta, axis=0)\<close> or \<^verbatim>\<open>np.mean(nzeta, axis=0)\<close>. With no
  folder at all, \<^verbatim>\<open>np.max\<close> raises and \<^verbatim>\<open>np.mean\<close> returns the scalar nan.
\<close>

datatype nbands_arg = Scalar nband | PerFolder "nband list"

datatype aggregated = Vector "real list" | NaN

text \<open>\<^verbatim>\<open>[nbands] * len(folders) if not isinstance(nbands, list) else nbands\<close>\<close>

definition per_folder :: "nbands_arg \<Rightarrow> config list \<Rightarrow> nband list" where
  "per_folder nbands folders =
     (case nbands of Scalar b \<Rightarrow> replicate (length folders) b | PerFolder bs \<Rightarrow> bs)"

definition nzeta_mean_conf :: "nbands_arg \<Rightarrow> config list \<Rightarrow> string \<Rightarrow> error + aggregated" where
  "nzeta_mean_conf nbands folders statistics =
     (if \<not> (statistics = ''max'' \<or> statistics = ''mean'') then Inl (AssertionError NoMessage)
      else
        let nbands' = per_folder nbands folders in
        (case traverse (\<lambda>(folder, nband). nzeta_infer folder nband 1) (zip folders nbands') of
           Inl e \<Rightarrow> Inl e
         | Inr nzeta \<Rightarrow>
             let max_shape = foldl max 0 (map length nzeta) in
             if \<not> list_all (\<lambda>nz. length nz = max_shape) nzeta then Inl ValueError
             else if statistics = ''max'' then
               (if nzeta = [] then Inl ValueError
                else Inr (Vector (map (\<lambda>l. foldl max (hd nzeta ! l) (map (\<lambda>nz. nz ! l) (tl nzeta)))
                                    [0..<max_shape])))
             else
               (if nzeta = [] then Inr NaN
                else Inr (Vector (map (\<lambda>l. sum_list (map (\<lambda>nz. nz ! l) nzeta) / real (length nzeta))
                                    [0..<max_shape])))))"

text \<open>
  The zeta count of one orbital in \<^verbatim>\<open>_coef_opt_jy\<close>: the value of the input, or for
  \<^verbatim>\<open>"auto"\<close> the inference with the statistics \<^verbatim>\<open>'max'\<close>; then
  \<^verbatim>\<open>[int(np.ceil(nz)) for nz in nzeta_orb]\<close>, which cannot iterate over a scalar.
\<close>

datatype nzeta_setting = Auto | Given "real list"

definition jy_nzeta :: "nzeta_setting \<Rightarrow> nbands_arg \<Rightarrow> config list \<Rightarrow> error + int list" where
  "jy_nzeta setting nbands folders =
     (case (case setting of
              Given v \<Rightarrow> Inr (Vector v)
            | Auto \<Rightarrow> nzeta_mean_conf nbands folders ''max'') of
        Inl e \<Rightarrow> Inl e
      | Inr NaN \<Rightarrow> Inl TypeError
      | Inr (Vector v) \<Rightarrow> Inr (map ceiling v))"

text \<open>
  Two configurations to run the inference on: a gamma-point run with eight bands, and a run
  with two k-points of weight one half whose singular values differ.
\<close>

definition example_kfile_a :: kfile where
  "example_kfile_a =
     \<lparr>wfc_nbands = 8, kpt_index = Some 0, sigma = (\<lambda>n. [[2, 1 / 2], [3 / 2, 2, 1 / 4], [1 / 2]])\<rparr>"

definition example_kfile_b :: kfile where
  "example_kfile_b =
     \<lparr>wfc_nbands = 8, kpt_index = Some 1, sigma = (\<lambda>n. [[2, 3], [3 / 2, 1 / 2, 1 / 4], [5]])\<rparr>"

definition example_config_a :: config where
  "example_config_a =
     \<lparr>input_nspin = 1, running_nspin = 1, wk = [1], natom = [2], occ = [[[2, 2, 0, 0]]],
      kfiles = [example_kfile_a]\<rparr>"

definition example_config_b :: config where
  "example_config_b =
     \<lparr>input_nspin = 1, running_nspin = 1, wk = [1 / 2, 1 / 2], natom = [2],
      occ = [[[2, 2, 0, 0], [2, 2, 0, 0]]],
      kfiles = [example_kfile_a, example_kfile_b]\<rparr>"

section \<open>Properties of the coefficient algebra\<close>

subsection \<open>List access and comprehensions\<close>

lemma traverse_map:
  "(\<And>x. x \<in> set xs \<Longrightarrow> f x = Inr (g x)) \<Longrightarrow> traverse f xs = Inr (map g xs)"
  by (induction xs) simp_all

lemma getitem_in_range:
  "0 \<le> i \<Longrightarrow> i < int (length xs) \<Longrightarrow> getitem xs i = Inr (xs ! nat i)"
  by (simp add: getitem_def)

lemma getitem2_in_range:
  "l < length data \<Longrightarrow> 0 \<le> j \<Longrightarrow> j < int (length (data ! l)) \<Longrightarrow>
     getitem2 data (int l) j = Inr (data ! l ! nat j)"
  by (simp add: getitem2_def getitem_def)

lemma set_py_range: "set (py_range a b) = {j. a \<le> j \<and> j < b}"
proof -
  have "j \<in> (\<lambda>k. a + int k) ` {0..<nat (b - a)} \<longleftrightarrow> a \<le> j \<and> j < b" for j
  proof
    assume "j \<in> (\<lambda>k. a + int k) ` {0..<nat (b - a)}"
    then show "a \<le> j \<and> j < b" by auto
  next
    assume h: "a \<le> j \<and> j < b"
    then have "j = a + int (nat (j - a))" "nat (j - a) \<in> {0..<nat (b - a)}" by auto
    then show "j \<in> (\<lambda>k. a + int k) ` {0..<nat (b - a)}" by blast
  qed
  then show ?thesis by (auto simp: py_range_def)
qed

lemma map_nth_py_range:
  assumes "0 \<le> a" "b \<le> int (length xs)"
  shows "map (\<lambda>j. xs ! nat j) (py_range a b) = take (nat (b - a)) (drop (nat a) xs)"
proof (rule nth_equalityI)
  show "length (map (\<lambda>j. xs ! nat j) (py_range a b)) = length (take (nat (b - a)) (drop (nat a) xs))"
    using assms by (auto simp: py_range_def)
next
  fix i assume "i < length (map (\<lambda>j. xs ! nat j) (py_range a b))"
  then have i: "i < nat (b - a)" by (simp add: py_range_def)
  then show "map (\<lambda>j. xs ! nat j) (py_range a b) ! i = take (nat (b - a)) (drop (nat a) xs) ! i"
    using assms by (simp add: py_range_def nat_add_distrib)
qed

lemma traverse_row:
  assumes "0 \<le> a" "b \<le> int (length (data ! l))" "l < length data"
  shows "traverse (\<lambda>j. getitem2 data (int l) j) (py_range a b)
           = Inr (take (nat (b - a)) (drop (nat a) (data ! l)))"
proof -
  have "traverse (\<lambda>j. getitem2 data (int l) j) (py_range a b)
          = Inr (map (\<lambda>j. data ! l ! nat j) (py_range a b))"
    using assms by (intro traverse_map getitem2_in_range) (auto simp: set_py_range)
  then show ?thesis using assms by (simp add: map_nth_py_range)
qed

lemma traverse_row_empty:
  "b \<le> a \<Longrightarrow> traverse f (py_range a b) = Inr []"
  by (simp add: py_range_def)


lemma traverse_enumerate:
  assumes "\<And>l. l < length xs \<Longrightarrow> f (l, xs ! l) = Inr (g l)"
  shows "traverse f (enumerate 0 xs) = Inr (map g [0..<length xs])"
proof -
  have "traverse f (enumerate 0 xs) = Inr (map (\<lambda>(l, x). g l) (enumerate 0 xs))"
    using assms by (intro traverse_map) (auto simp: in_set_enumerate_eq)
  moreover have "map (\<lambda>(l, x). g l) (enumerate 0 xs) = map g [0..<length xs]"
    by (rule nth_equalityI) (simp_all add: nth_enumerate_eq)
  ultimately show ?thesis by simp
qed

lemma nth_padded:
  "length nz0 \<le> n \<Longrightarrow> l < n \<Longrightarrow> (nz0 @ replicate (n - length nz0) 0) ! l = base nz0 l"
  by (simp add: base_def nth_append)

lemma coef_subset_Some_ok:
  assumes len: "length nz0 \<le> length nzeta" "length nzeta \<le> length data"
    and rng: "\<And>l. l < length nzeta \<Longrightarrow>
                0 \<le> base nz0 l \<and> base nz0 l \<le> nzeta ! l \<and> nzeta ! l \<le> int (length (data ! l))"
  shows "coef_subset nzeta (Some nz0) data = Inr [zeta_slice nz0 nzeta data]"
proof -
  define nzeta0' where "nzeta0' = nz0 @ replicate (length nzeta - length nz0) 0"
  have len': "length nzeta0' = length nzeta" using len by (simp add: nzeta0'_def)
  have nth': "nzeta0' ! l = base nz0 l" if "l < length nzeta" for l
    using that len by (simp add: nzeta0'_def nth_padded)
  have hier: "list_all (\<lambda>(nz, nz0). nz0 \<le> nz) (zip nzeta nzeta0')"
    using rng by (auto simp: list_all_length len' nth')
  define iz_subset where "iz_subset = map (\<lambda>(iz, jz). py_range iz jz) (zip nzeta0' nzeta)"
  have leni: "length iz_subset = length nzeta" by (simp add: iz_subset_def len')
  have "traverse (\<lambda>(l, jz). traverse (\<lambda>j. getitem2 data (int l) j) jz) (enumerate 0 iz_subset)
          = Inr (map (\<lambda>l. take (nat (nzeta ! l - base nz0 l)) (drop (nat (base nz0 l)) (data ! l)))
                  [0..<length iz_subset])"
  proof (rule traverse_enumerate)
    fix l assume "l < length iz_subset"
    then have l: "l < length nzeta" by (simp add: leni)
    then have "iz_subset ! l = py_range (base nz0 l) (nzeta ! l)"
      by (simp add: iz_subset_def len' nth')
    then show "(case (l, iz_subset ! l) of (l, jz) \<Rightarrow> traverse (\<lambda>j. getitem2 data (int l) j) jz)
                 = Inr (take (nat (nzeta ! l - base nz0 l)) (drop (nat (base nz0 l)) (data ! l)))"
      using rng[OF l] l len by (simp add: traverse_row)
  qed
  then show ?thesis
    using len hier
    by (simp add: coef_subset_def Let_def zeta_slice_def leni flip: nzeta0'_def iz_subset_def)
qed

lemma length_merge1: "length (merge1 xs ys) = max (length xs) (length ys)"
  by (induction xs ys rule: merge1.induct) simp_all

lemma nth_merge1:
  "i < max (length xs) (length ys) \<Longrightarrow>
     merge1 xs ys ! i = (if i < length xs then xs ! i else []) @ (if i < length ys then ys ! i else [])"
proof (induction xs ys arbitrary: i rule: merge1.induct)
  case (3 x xs y ys)
  then show ?case by (cases i) simp_all
qed simp_all

lemma merge1_zeta_slice:
  assumes len: "length nzeta0 \<le> length nzeta1" "length nzeta1 \<le> length nzeta2"
    and rng: "\<And>l. l < length nzeta2 \<Longrightarrow>
                0 \<le> base nzeta0 l \<and> base nzeta0 l \<le> base nzeta1 l \<and> base nzeta1 l \<le> nzeta2 ! l"
  shows "merge1 (zeta_slice nzeta0 nzeta1 A) (zeta_slice nzeta1 nzeta2 A) = zeta_slice nzeta0 nzeta2 A"
proof (rule nth_equalityI)
  show "length (merge1 (zeta_slice nzeta0 nzeta1 A) (zeta_slice nzeta1 nzeta2 A))
          = length (zeta_slice nzeta0 nzeta2 A)"
    using len by (simp add: length_merge1 zeta_slice_def)
next
  fix l assume "l < length (merge1 (zeta_slice nzeta0 nzeta1 A) (zeta_slice nzeta1 nzeta2 A))"
  then have l: "l < length nzeta2" using len by (simp add: length_merge1 zeta_slice_def)
  define b0 b1 n2 where "b0 = nat (base nzeta0 l)" and "b1 = nat (base nzeta1 l)" and "n2 = nat (nzeta2 ! l)"
  have ord: "b0 \<le> b1" "b1 \<le> n2" using rng[OF l] unfolding b0_def b1_def n2_def by linarith+
  have d: "nat (base nzeta1 l - base nzeta0 l) = b1 - b0" "nat (nzeta2 ! l - base nzeta1 l) = n2 - b1"
      "nat (nzeta2 ! l - base nzeta0 l) = n2 - b0"
    using rng[OF l] unfolding b0_def b1_def n2_def by linarith+
  have split: "take (b1 - b0) (drop b0 xs) @ take (n2 - b1) (drop b1 xs) = take (n2 - b0) (drop b0 xs)" for xs :: "'a list"
  proof -
    have "take (n2 - b0) (drop b0 xs) = take ((b1 - b0) + (n2 - b1)) (drop b0 xs)" using ord by simp
    also have "\<dots> = take (b1 - b0) (drop b0 xs) @ take (n2 - b1) (drop (b1 - b0) (drop b0 xs))"
      by (rule take_add)
    also have "drop (b1 - b0) (drop b0 xs) = drop b1 xs" using ord by simp
    finally show ?thesis by simp
  qed
  show "merge1 (zeta_slice nzeta0 nzeta1 A) (zeta_slice nzeta1 nzeta2 A) ! l = zeta_slice nzeta0 nzeta2 A ! l"
  proof (cases "l < length nzeta1")
    case True
    then have b: "base nzeta1 l = nzeta1 ! l" by (simp add: base_def)
    then have b1': "nat (nzeta1 ! l) = b1" by (simp add: b1_def)
    from True l len have "merge1 (zeta_slice nzeta0 nzeta1 A) (zeta_slice nzeta1 nzeta2 A) ! l
        = take (b1 - b0) (drop b0 (A ! l)) @ take (n2 - b1) (drop b1 (A ! l))"
      using d by (simp add: nth_merge1 zeta_slice_def b b1' flip: b0_def)
    also have "\<dots> = zeta_slice nzeta0 nzeta2 A ! l"
      using l d split[of "A ! l"] by (simp add: zeta_slice_def flip: b0_def)
    finally show ?thesis .
  next
    case False
    then have "base nzeta1 l = 0" "base nzeta0 l = 0" using len by (simp_all add: base_def)
    with False l show ?thesis by (simp add: nth_merge1 zeta_slice_def)
  qed
qed


lemma traverse_InrD:
  "traverse f xs = Inr ys \<Longrightarrow> length ys = length xs \<and> (\<forall>i<length xs. f (xs ! i) = Inr (ys ! i))"
proof (induction xs arbitrary: ys)
  case Nil
  then show ?case by simp
next
  case (Cons x xs)
  then obtain y ys' where y: "f x = Inr y" "traverse f xs = Inr ys'" "ys = y # ys'"
    by (auto split: sum.splits)
  with Cons.IH[of ys'] show ?case by (auto simp: nth_Cons')
qed

lemma getitem_nonneg_InrD:
  "getitem xs j = Inr v \<Longrightarrow> 0 \<le> j \<Longrightarrow> j < int (length xs) \<and> v = xs ! nat j"
  by (auto simp: getitem_def split: if_splits)

lemma traverse_row_from_zero_InrD:
  assumes "traverse (\<lambda>j. getitem2 data (int l) j) (py_range 0 nz) = Inr ys"
  shows "ys = take (nat nz) (data ! l)"
proof (cases "0 < nz")
  case False
  with assms show ?thesis by (simp add: py_range_def)
next
  case True
  from traverse_InrD[OF assms]
  have len: "length ys = nat nz"
    and el: "\<And>i. i < nat nz \<Longrightarrow> getitem2 data (int l) (int i) = Inr (ys ! i)"
    by (simp_all add: py_range_def)
  have row: "getitem2 data (int l) (int i) = Inr v \<Longrightarrow> l < length data \<and> i < length (data ! l) \<and> v = data ! l ! i" for i v
    by (auto simp: getitem2_def getitem_def split: sum.splits if_splits)
  from True have "nat nz - 1 < nat nz" by simp
  from row[OF el[OF this]] True have "nat nz \<le> length (data ! l)" by linarith
  show ?thesis
  proof (rule nth_equalityI)
    show "length ys = length (take (nat nz) (data ! l))"
      using len \<open>nat nz \<le> length (data ! l)\<close> by simp
  next
    fix i assume "i < length ys"
    then have "i < nat nz" using len by simp
    from row[OF el[OF this]] this show "ys ! i = take (nat nz) (data ! l) ! i" by simp
  qed
qed

lemma traverse_enumerate_InrD:
  assumes "traverse f (enumerate 0 xs) = Inr ys" "l < length xs"
  shows "f (l, xs ! l) = Inr (ys ! l)"
  using traverse_InrD[OF assms(1)] assms(2) by (auto simp: nth_enumerate_eq)

lemma traverse_enumerate_map:
  "traverse f (enumerate n (map g xs)) = traverse (\<lambda>(l, x). f (l, g x)) (enumerate n xs)"
  by (induction xs arbitrary: n) (simp_all split: sum.splits)

lemma zip_replicate_zero:
  "map (\<lambda>(iz, jz). py_range iz jz) (zip (replicate (length xs) 0) xs) = map (py_range 0) xs"
  by (rule nth_equalityI) simp_all


subsection \<open>Subset and merge compose across levels\<close>

text \<open>
  Claim C4. Let \<open>A\<close> be a coefficient set and \<open>nzeta0 \<le> nzeta1 \<le> nzeta2\<close> componentwise
  (a channel that a shorter vector does not list counting as 0, the entries of \<open>nzeta0\<close>
  non-negative), with at least \<open>nzeta2[l]\<close> zeta entries in every channel \<open>l\<close> of \<open>A\<close>.
  Then merging, along the zeta axis, the subset of \<open>A\<close> between \<open>nzeta0\<close> and \<open>nzeta1\<close>
  with the subset between \<open>nzeta1\<close> and \<open>nzeta2\<close> gives the subset between \<open>nzeta0\<close> and
  \<open>nzeta2\<close>, and that subset holds, per channel \<open>l\<close>, exactly the entries with zeta index
  in \<open>[nzeta0[l], nzeta2[l])\<close>, in order.
\<close>

theorem coef_subset_merge_compose:
  assumes "length nzeta0 \<le> length nzeta1" "length nzeta1 \<le> length nzeta2"
    and "length nzeta2 \<le> length A"
    and "\<forall>l<length nzeta2. 0 \<le> base nzeta0 l \<and> base nzeta0 l \<le> base nzeta1 l \<and>
           base nzeta1 l \<le> nzeta2 ! l \<and> nzeta2 ! l \<le> int (length (A ! l))"
  shows "merge_results (coef_subset nzeta1 (Some nzeta0) A) (coef_subset nzeta2 (Some nzeta1) A)
           = coef_subset nzeta2 (Some nzeta0) A
         \<and> coef_subset nzeta2 (Some nzeta0) A = Inr [zeta_slice nzeta0 nzeta2 A]"
proof -
  have b1: "base nzeta1 l = nzeta1 ! l" if "l < length nzeta1" for l
    using that by (simp add: base_def)
  have s01: "coef_subset nzeta1 (Some nzeta0) A = Inr [zeta_slice nzeta0 nzeta1 A]"
  proof (rule coef_subset_Some_ok)
    fix l assume l: "l < length nzeta1"
    then have "l < length nzeta2" using assms(2) by simp
    with assms(4) b1[OF l]
    show "0 \<le> base nzeta0 l \<and> base nzeta0 l \<le> nzeta1 ! l \<and> nzeta1 ! l \<le> int (length (A ! l))"
      by fastforce
  qed (use assms in simp_all)
  have s12: "coef_subset nzeta2 (Some nzeta1) A = Inr [zeta_slice nzeta1 nzeta2 A]"
  proof (rule coef_subset_Some_ok)
    fix l assume l: "l < length nzeta2"
    with assms(4)
    show "0 \<le> base nzeta1 l \<and> base nzeta1 l \<le> nzeta2 ! l \<and> nzeta2 ! l \<le> int (length (A ! l))"
      by fastforce
  qed (use assms in simp_all)
  have s02: "coef_subset nzeta2 (Some nzeta0) A = Inr [zeta_slice nzeta0 nzeta2 A]"
  proof (rule coef_subset_Some_ok)
    fix l assume l: "l < length nzeta2"
    with assms(4)
    show "0 \<le> base nzeta0 l \<and> base nzeta0 l \<le> nzeta2 ! l \<and> nzeta2 ! l \<le> int (length (A ! l))"
      by fastforce
  qed (use assms in simp_all)
  have "merge1 (zeta_slice nzeta0 nzeta1 A) (zeta_slice nzeta1 nzeta2 A) = zeta_slice nzeta0 nzeta2 A"
    using assms by (intro merge1_zeta_slice) auto
  then show ?thesis by (simp add: s01 s12 s02 merge_results_def)
qed

theorem coef_subset_merge_compose_witness:
  "merge_results (coef_subset [2, 2, 1] (Some [1, 1]) [[10, 11, 12], [20, 21, 22], [30, 31 :: nat]])
                 (coef_subset [3, 3, 2] (Some [2, 2, 1]) [[10, 11, 12], [20, 21, 22], [30, 31]])
     = Inr [[[11, 12], [21, 22], [30, 31]]]
   \<and> coef_subset [3, 3, 2] (Some [1, 1]) [[10, 11, 12], [20, 21, 22], [30, 31 :: nat]]
     = Inr [[[11, 12], [21, 22], [30, 31]]]"
  using coef_subset_merge_compose [of "[1, 1]" "[2, 2, 1]" "[3, 3, 2]"
          "[[10, 11, 12], [20, 21, 22], [30, 31 :: nat]]"]
  by (simp add: base_def zeta_slice_def All_less_Suc upt_rec nth_Cons')


subsection \<open>A baseline above the target is rejected\<close>

text \<open>
  Claim C5. If \<open>nzeta0[l] > nzeta[l]\<close> for some channel \<open>l\<close> that both vectors list, then
  \<^verbatim>\<open>_coef_subset(nzeta, nzeta0, data)\<close> raises an AssertionError, whatever \<open>data\<close> is, and
  returns no subset: the assertion on the sizes when \<open>nzeta0\<close> is the longer vector, the
  assertion on the hierarchy of the two vectors otherwise.
\<close>

theorem coef_subset_hierarchy_violation:
  assumes "l < length nzeta" "l < length nzeta0" "nzeta ! l < nzeta0 ! l"
  shows "coef_subset nzeta (Some nzeta0) data =
           Inl (AssertionError
                 (if length nzeta < length nzeta0 then SizeError (length nzeta) (length nzeta0)
                  else NotHierarchical (nzeta0 @ replicate (length nzeta - length nzeta0) 0) nzeta))"
proof (cases "length nzeta < length nzeta0")
  case True
  then show ?thesis by (simp add: coef_subset_def)
next
  case False
  define nzeta0' where "nzeta0' = nzeta0 @ replicate (length nzeta - length nzeta0) 0"
  have "length nzeta0' = length nzeta" using False by (simp add: nzeta0'_def)
  moreover have "nzeta0' ! l = nzeta0 ! l" using assms by (simp add: nzeta0'_def nth_append)
  ultimately have "\<not> list_all (\<lambda>(nz, nz0). nz0 \<le> nz) (zip nzeta nzeta0')"
    using assms by (auto simp: list_all_length)
  then show ?thesis using False by (simp add: coef_subset_def Let_def flip: nzeta0'_def)
qed

theorem coef_subset_hierarchy_violation_witness:
  "coef_subset [2, 2, 1] (Some [3, 3, 2]) [[10, 11, 12], [20, 21, 22], [30, 31 :: nat]]
     = Inl (AssertionError (NotHierarchical [3, 3, 2] [2, 2, 1]))"
  using coef_subset_hierarchy_violation [of 0 "[2, 2, 1]" "[3, 3, 2]"
          "[[10, 11, 12], [20, 21, 22], [30, 31 :: nat]]"]
  by simp



subsection \<open>Absent and short baselines\<close>

text \<open>
  Claim C10. (1) With no baseline, \<^verbatim>\<open>_coef_subset(nzeta, None, data)\<close> returns, in a list of
  one atom type, the first \<open>nzeta[l]\<close> zeta entries of every channel \<open>l\<close> (when \<open>data\<close> has
  them); (2) for non-negative \<open>nzeta\<close> this is the result for the baseline of all zeros;
  (3) a baseline shorter than \<open>nzeta\<close> gives the result of the baseline padded with zeros,
  so that (4) a channel \<open>l\<close> beyond the baseline holds the entries with index in
  \<open>[0, nzeta[l])\<close> whenever a subset is returned; (5) a baseline longer than \<open>nzeta\<close> is
  rejected by the assertion on the sizes, whatever its components are.
\<close>

theorem coef_subset_absent_or_short_baseline:
  "(length nzeta \<le> length data \<and> (\<forall>l<length nzeta. nzeta ! l \<le> int (length (data ! l))) \<longrightarrow>
      coef_subset nzeta None data = Inr [map (\<lambda>l. take (nat (nzeta ! l)) (data ! l)) [0..<length nzeta]])
   \<and> ((\<forall>nz\<in>set nzeta. 0 \<le> nz) \<longrightarrow>
      coef_subset nzeta None data = coef_subset nzeta (Some (replicate (length nzeta) 0)) data)
   \<and> (length nzeta0 < length nzeta \<longrightarrow>
      coef_subset nzeta (Some nzeta0) data
        = coef_subset nzeta (Some (nzeta0 @ replicate (length nzeta - length nzeta0) 0)) data)
   \<and> (length nzeta0 < length nzeta \<and> coef_subset nzeta (Some nzeta0) data = Inr t \<longrightarrow>
      (\<exists>sub. t = [sub] \<and> length sub = length nzeta \<and>
         (\<forall>l. length nzeta0 \<le> l \<and> l < length nzeta \<longrightarrow> sub ! l = take (nat (nzeta ! l)) (data ! l))))
   \<and> (length nzeta < length nzeta0 \<longrightarrow>
      coef_subset nzeta (Some nzeta0) data
        = Inl (AssertionError (SizeError (length nzeta) (length nzeta0))))"
proof (intro conjI impI)
  assume h: "length nzeta \<le> length data \<and> (\<forall>l<length nzeta. nzeta ! l \<le> int (length (data ! l)))"
  have "traverse (\<lambda>(l, nz). traverse (\<lambda>iz. getitem2 data (int l) iz) (py_range 0 nz)) (enumerate 0 nzeta)
          = Inr (map (\<lambda>l. take (nat (nzeta ! l)) (data ! l)) [0..<length nzeta])"
  proof (rule traverse_enumerate)
    fix l assume l: "l < length nzeta"
    with h have "traverse (\<lambda>iz. getitem2 data (int l) iz) (py_range 0 (nzeta ! l))
                   = Inr (take (nat (nzeta ! l - 0)) (drop (nat 0) (data ! l)))"
      by (intro traverse_row) auto
    then show "(case (l, nzeta ! l) of (l, nz) \<Rightarrow> traverse (\<lambda>iz. getitem2 data (int l) iz) (py_range 0 nz))
                 = Inr (take (nat (nzeta ! l)) (data ! l))"
      by simp
  qed
  then show "coef_subset nzeta None data = Inr [map (\<lambda>l. take (nat (nzeta ! l)) (data ! l)) [0..<length nzeta]]"
    by (simp add: coef_subset_def)
next
  assume nonneg: "\<forall>nz\<in>set nzeta. 0 \<le> nz"
  then have "list_all (\<lambda>(nz, nz0). nz0 \<le> nz) (zip nzeta (replicate (length nzeta) 0))"
    by (auto simp: list_all_length)
  then show "coef_subset nzeta None data = coef_subset nzeta (Some (replicate (length nzeta) 0)) data"
    by (simp add: coef_subset_def Let_def zip_replicate_zero traverse_enumerate_map)
next
  assume "length nzeta0 < length nzeta"
  then show "coef_subset nzeta (Some nzeta0) data
               = coef_subset nzeta (Some (nzeta0 @ replicate (length nzeta - length nzeta0) 0)) data"
    by (simp add: coef_subset_def)
next
  assume h: "length nzeta0 < length nzeta \<and> coef_subset nzeta (Some nzeta0) data = Inr t"
  define nzeta0' where "nzeta0' = nzeta0 @ replicate (length nzeta - length nzeta0) 0"
  define iz_subset where "iz_subset = map (\<lambda>(iz, jz). py_range iz jz) (zip nzeta0' nzeta)"
  have len': "length nzeta0' = length nzeta" using h by (simp add: nzeta0'_def)
  have leni: "length iz_subset = length nzeta" by (simp add: iz_subset_def len')
  from h obtain sub where
    sub: "traverse (\<lambda>(l, jz). traverse (\<lambda>j. getitem2 data (int l) j) jz) (enumerate 0 iz_subset) = Inr sub"
    and t: "t = [sub]"
    by (auto simp: coef_subset_def Let_def split: if_splits sum.splits simp flip: nzeta0'_def iz_subset_def)
  have "length sub = length nzeta" using traverse_InrD[OF sub] by (simp add: leni)
  moreover have "sub ! l = take (nat (nzeta ! l)) (data ! l)"
    if l: "length nzeta0 \<le> l \<and> l < length nzeta" for l
  proof -
    have "l - length nzeta0 < length nzeta - length nzeta0" using l h by linarith
    then have "nzeta0' ! l = 0" using l by (simp add: nzeta0'_def nth_append)
    then have "iz_subset ! l = py_range 0 (nzeta ! l)" using l by (simp add: iz_subset_def len')
    with traverse_enumerate_InrD[OF sub, of l] l
    have "traverse (\<lambda>j. getitem2 data (int l) j) (py_range 0 (nzeta ! l)) = Inr (sub ! l)"
      by (simp add: leni)
    then show ?thesis by (rule traverse_row_from_zero_InrD)
  qed
  ultimately show "\<exists>sub. t = [sub] \<and> length sub = length nzeta \<and>
         (\<forall>l. length nzeta0 \<le> l \<and> l < length nzeta \<longrightarrow> sub ! l = take (nat (nzeta ! l)) (data ! l))"
    using t by blast
next
  assume "length nzeta < length nzeta0"
  then show "coef_subset nzeta (Some nzeta0) data
               = Inl (AssertionError (SizeError (length nzeta) (length nzeta0)))"
    by (simp add: coef_subset_def)
qed



theorem coef_subset_absent_or_short_baseline_witness:
  "coef_subset [1, 1] None [[10, 11, 12], [20, 21, 22], [30, 31 :: nat]] = Inr [[[10], [20]]]
   \<and> coef_subset [1, 1] None [[10, 11, 12], [20, 21, 22], [30, 31 :: nat]]
       = coef_subset [1, 1] (Some [0, 0]) [[10, 11, 12], [20, 21, 22], [30, 31]]
   \<and> coef_subset [3, 3, 2] (Some [1]) [[10, 11, 12], [20, 21, 22], [30, 31 :: nat]]
       = coef_subset [3, 3, 2] (Some [1, 0, 0]) [[10, 11, 12], [20, 21, 22], [30, 31]]
   \<and> coef_subset [3, 3, 2] (Some [1]) [[10, 11, 12], [20, 21, 22], [30, 31 :: nat]]
       = Inr [[[11, 12], [20, 21, 22], [30, 31]]]
   \<and> coef_subset [1, 1] (Some [0, 0, 0]) [[10, 11, 12], [20, 21, 22], [30, 31 :: nat]]
       = Inl (AssertionError (SizeError 2 3))"
proof -
  let ?D = "[[10, 11, 12], [20, 21, 22], [30, 31 :: nat]]"
  note T1 = coef_subset_absent_or_short_baseline [of "[1, 1]" ?D "[0, 0, 0]"]
  note T2 = coef_subset_absent_or_short_baseline
              [of "[3, 3, 2]" ?D "[1]" "[[[11, 12], [20, 21, 22], [30, 31]]]"]
  have ev: "coef_subset [3, 3, 2] (Some [1]) ?D = Inr [[[11, 12], [20, 21, 22], [30, 31]]]"
    by (simp add: coef_subset_def getitem2_def getitem_def py_range_def enumerate_eq_zip upt_rec)
  have a: "coef_subset [1, 1] None ?D = Inr [[[10], [20]]]"
    using T1 by (simp add: All_less_Suc upt_rec)
  have b: "coef_subset [1, 1] None ?D = coef_subset [1, 1] (Some [0, 0]) ?D"
    using T1 by (simp add: numeral_2_eq_2)
  have c: "coef_subset [3, 3, 2] (Some [1]) ?D = coef_subset [3, 3, 2] (Some [1, 0, 0]) ?D"
    using T2 by (simp add: numeral_2_eq_2)
  have d: "coef_subset [1, 1] (Some [0, 0, 0]) ?D = Inl (AssertionError (SizeError 2 3))"
    using T1 by simp
  from a b c ev d show ?thesis by simp
qed

section \<open>Properties of peeling\<close>

subsection \<open>One level taken from the front\<close>

lemma pops_take_drop:
  "k \<le> length xs \<Longrightarrow> pops k xs = Inr (take k xs, drop k xs)"
proof (induction k xs rule: pops.induct)
  case (3 k x xs)
  then show ?case by simp
qed simp_all

lemma pops_short: "length xs < k \<Longrightarrow> pops k xs = Inl IndexError"
proof (induction k xs rule: pops.induct)
  case (3 k x xs)
  then show ?case by simp
qed simp_all

text \<open>One level taken from the front of the channels \<open>l0, l0 + 1, ...\<close> of \<open>lst\<close>.\<close>

lemma peel_level_front:
  assumes "l0 + length nzs \<le> length lst"
    and "\<And>i. i < length nzs \<Longrightarrow> 0 \<le> nzs ! i \<and> nzs ! i \<le> int (length (lst ! (l0 + i)))"
  shows "peel_level l0 nzs lst =
           Inr (map (\<lambda>i. take (nat (nzs ! i)) (lst ! (l0 + i))) [0..<length nzs],
                map (\<lambda>j. if l0 \<le> j \<and> j < l0 + length nzs
                           then drop (nat (nzs ! (j - l0))) (lst ! j) else lst ! j) [0..<length lst])"
  using assms
proof (induction nzs arbitrary: l0 lst)
  case Nil
  have "map (\<lambda>j. if l0 \<le> j \<and> j < l0 + length ([] :: int list)
                    then drop (nat ([] ! (j - l0))) (lst ! j) else lst ! j) [0..<length lst] = lst"
    by (rule nth_equalityI) simp_all
  then show ?case by simp
next
  case (Cons nz nzs)
  from Cons.prems(2)[of 0] have nz: "0 \<le> nz" "nz \<le> int (length (lst ! l0))" by simp_all
  have l0: "l0 < length lst" using Cons.prems(1) by simp
  define rest where "rest = drop (nat nz) (lst ! l0)"
  define lst1 where "lst1 = lst[l0 := rest]"
  have len1: "length lst1 = length lst" by (simp add: lst1_def)
  have nth1: "lst1 ! Suc (l0 + i) = lst ! Suc (l0 + i)" for i by (simp add: lst1_def)
  have IH: "peel_level (Suc l0) nzs lst1 =
           Inr (map (\<lambda>i. take (nat (nzs ! i)) (lst1 ! (Suc l0 + i))) [0..<length nzs],
                map (\<lambda>j. if Suc l0 \<le> j \<and> j < Suc l0 + length nzs
                           then drop (nat (nzs ! (j - Suc l0))) (lst1 ! j) else lst1 ! j) [0..<length lst1])"
  proof (rule Cons.IH)
    show "Suc l0 + length nzs \<le> length lst1" using Cons.prems(1) by (simp add: len1)
  next
    fix i assume "i < length nzs"
    then show "0 \<le> nzs ! i \<and> nzs ! i \<le> int (length (lst1 ! (Suc l0 + i)))"
      using Cons.prems(2)[of "Suc i"] by (simp add: nth1)
  qed
  have new: "map (\<lambda>i. take (nat ((nz # nzs) ! i)) (lst ! (l0 + i))) [0..<length (nz # nzs)]
               = take (nat nz) (lst ! l0) # map (\<lambda>i. take (nat (nzs ! i)) (lst1 ! (Suc l0 + i))) [0..<length nzs]"
    by (rule nth_equalityI) (auto simp: nth_Cons' nth1 simp del: upt_Suc)
  have old: "map (\<lambda>j. if l0 \<le> j \<and> j < l0 + length (nz # nzs)
                           then drop (nat ((nz # nzs) ! (j - l0))) (lst ! j) else lst ! j) [0..<length lst]
           = map (\<lambda>j. if Suc l0 \<le> j \<and> j < Suc l0 + length nzs
                           then drop (nat (nzs ! (j - Suc l0))) (lst1 ! j) else lst1 ! j) [0..<length lst1]"
  proof (rule nth_equalityI)
    show "length (map (\<lambda>j. if l0 \<le> j \<and> j < l0 + length (nz # nzs)
                           then drop (nat ((nz # nzs) ! (j - l0))) (lst ! j) else lst ! j) [0..<length lst])
        = length (map (\<lambda>j. if Suc l0 \<le> j \<and> j < Suc l0 + length nzs
                           then drop (nat (nzs ! (j - Suc l0))) (lst1 ! j) else lst1 ! j) [0..<length lst1])"
      by (simp add: len1)
  next
    fix j assume "j < length (map (\<lambda>j. if l0 \<le> j \<and> j < l0 + length (nz # nzs)
                           then drop (nat ((nz # nzs) ! (j - l0))) (lst ! j) else lst ! j) [0..<length lst])"
    then have j: "j < length lst" by simp
    consider "j = l0" | "Suc l0 \<le> j" | "j < l0" by linarith
    then show "map (\<lambda>j. if l0 \<le> j \<and> j < l0 + length (nz # nzs)
                           then drop (nat ((nz # nzs) ! (j - l0))) (lst ! j) else lst ! j) [0..<length lst] ! j
        = map (\<lambda>j. if Suc l0 \<le> j \<and> j < Suc l0 + length nzs
                           then drop (nat (nzs ! (j - Suc l0))) (lst1 ! j) else lst1 ! j) [0..<length lst1] ! j"
    proof cases
      case 1
      then show ?thesis using j by (simp add: len1 lst1_def rest_def)
    next
      case 2
      then have "j - l0 = Suc (j - Suc l0)" by simp
      with 2 show ?thesis using j by (simp add: len1 lst1_def)
    next
      case 3
      then show ?thesis using j by (simp add: len1 lst1_def)
    qed
  qed
  show ?case
  proof (cases "nz = 0")
    case True
    then have "lst1 = lst" by (simp add: lst1_def rest_def)
    with True IH new old show ?thesis by simp
  next
    case False
    with nz have pos: "\<not> nz \<le> 0" by simp
    have "pops (nat nz) (lst ! l0) = Inr (take (nat nz) (lst ! l0), rest)"
      using nz by (simp add: pops_take_drop rest_def)
    with pos l0 IH new old show ?thesis by (simp add: lst1_def)
  qed
qed


lemma peel_level_merge1:
  assumes "has_shape A nzeta"
  shows "peel_level 0 nzeta (merge1 A B) = Inr (A, merge1 (replicate (length A) []) B)"
proof -
  let ?X = "merge1 A B"
  from assms have len: "length A = length nzeta"
    and sz: "\<And>l. l < length nzeta \<Longrightarrow> nzeta ! l = int (length (A ! l))"
    by (simp_all add: has_shape_def)
  have X: "?X ! l = A ! l @ (if l < length B then B ! l else [])" if "l < length nzeta" for l
    using that len by (simp add: nth_merge1)
  have "peel_level 0 nzeta ?X =
           Inr (map (\<lambda>i. take (nat (nzeta ! i)) (?X ! (0 + i))) [0..<length nzeta],
                map (\<lambda>j. if 0 \<le> j \<and> j < 0 + length nzeta
                           then drop (nat (nzeta ! (j - 0))) (?X ! j) else ?X ! j) [0..<length ?X])"
  proof (rule peel_level_front)
    show "0 + length nzeta \<le> length ?X" using len by (simp add: length_merge1)
  next
    fix i assume "i < length nzeta"
    then show "0 \<le> nzeta ! i \<and> nzeta ! i \<le> int (length (?X ! (0 + i)))"
      using sz[of i] X[of i] by simp
  qed
  moreover have "map (\<lambda>i. take (nat (nzeta ! i)) (?X ! (0 + i))) [0..<length nzeta] = A"
    by (rule nth_equalityI) (simp_all add: len sz X)
  moreover have "map (\<lambda>j. if 0 \<le> j \<and> j < 0 + length nzeta
                           then drop (nat (nzeta ! (j - 0))) (?X ! j) else ?X ! j) [0..<length ?X]
                   = merge1 (replicate (length A) []) B"
  proof (rule nth_equalityI)
    show "length (map (\<lambda>j. if 0 \<le> j \<and> j < 0 + length nzeta
                           then drop (nat (nzeta ! (j - 0))) (?X ! j) else ?X ! j) [0..<length ?X])
            = length (merge1 (replicate (length A) []) B)"
      by (simp add: length_merge1)
  next
    fix j assume "j < length (map (\<lambda>j. if 0 \<le> j \<and> j < 0 + length nzeta
                           then drop (nat (nzeta ! (j - 0))) (?X ! j) else ?X ! j) [0..<length ?X])"
    then have j: "j < max (length A) (length B)" by (simp add: length_merge1)
    show "map (\<lambda>j. if 0 \<le> j \<and> j < 0 + length nzeta
                           then drop (nat (nzeta ! (j - 0))) (?X ! j) else ?X ! j) [0..<length ?X] ! j
            = merge1 (replicate (length A) []) B ! j"
    proof (cases "j < length nzeta")
      case True
      with j show ?thesis by (simp add: length_merge1 nth_merge1 len sz X)
    next
      case False
      with j show ?thesis by (simp add: length_merge1 nth_merge1 len)
    qed
  qed
  ultimately show ?thesis by simp
qed

lemma merge1_empty_channels:
  "n \<le> length B \<Longrightarrow> merge1 (replicate n []) B = B"
  by (rule nth_equalityI) (auto simp: length_merge1 nth_merge1)

lemma merge1_Nil_right [simp]: "merge1 xs [] = xs"
  by (cases xs) simp_all

lemma levels_fit_length: "levels_fit prev nzs ts \<Longrightarrow> length ts = length nzs"
  by (induction prev nzs ts rule: levels_fit.induct) simp_all

lemma levels_fit_snoc:
  "levels_fit prev (nzs @ [nzeta]) (ts @ [t]) \<longleftrightarrow>
     levels_fit prev nzs ts \<and>
     length (last (prev # nzs)) \<le> length nzeta \<and> length t = length nzeta \<and>
     (\<forall>l<length nzeta. int (length (t ! l)) = nzeta ! l - base (last (prev # nzs)) l)"
proof (induction nzs arbitrary: prev ts)
  case Nil
  show ?case
  proof (cases ts)
    case Nil
    then show ?thesis by simp
  next
    case (Cons x xs)
    then show ?thesis by (cases xs) simp_all
  qed
next
  case (Cons m ms)
  show ?case
  proof (cases ts)
    case Nil
    then show ?thesis by (cases ms) simp_all
  next
    case (Cons x xs)
    with Cons.IH[of m xs] show ?thesis by auto
  qed
qed

lemma has_shape_merge1:
  assumes "has_shape M prev" "length prev \<le> length nzeta" "length t = length nzeta"
    and "\<forall>l<length nzeta. int (length (t ! l)) = nzeta ! l - base prev l"
  shows "has_shape (merge1 M t) nzeta"
  unfolding has_shape_def
proof (intro conjI allI impI)
  show "length (merge1 M t) = length nzeta"
    using assms by (simp add: length_merge1 has_shape_def)
next
  fix l assume l: "l < length nzeta"
  show "int (length (merge1 M t ! l)) = nzeta ! l"
  proof (cases "l < length prev")
    case True
    with assms l show ?thesis by (simp add: nth_merge1 has_shape_def base_def)
  next
    case False
    with assms l show ?thesis by (simp add: nth_merge1 has_shape_def base_def)
  qed
qed

lemma merge_levels_snoc: "merge_levels (ts @ [t]) = merge1 (merge_levels ts) t"
  by (simp add: merge_levels_def)

lemma has_shape_merge_levels:
  "levels_fit [] nzs ts \<Longrightarrow> has_shape (merge_levels ts) (last ([] # nzs))"
proof (induction nzs arbitrary: ts rule: rev_induct)
  case Nil
  then have "ts = []" using levels_fit_length by fastforce
  then show ?case by (simp add: merge_levels_def has_shape_def)
next
  case (snoc n ns)
  from levels_fit_length[OF snoc.prems] obtain tss t where ts: "ts = tss @ [t]"
    by (cases ts rule: rev_cases) auto
  from snoc.prems[unfolded ts levels_fit_snoc]
  have fit: "levels_fit [] ns tss"
    and sh: "length (last ([] # ns)) \<le> length n" "length t = length n"
        "\<forall>l<length n. int (length (t ! l)) = n ! l - base (last ([] # ns)) l"
    by simp_all
  from has_shape_merge1[OF snoc.IH[OF fit] sh] show ?case
    by (simp add: ts merge_levels_snoc)
qed

lemma peel_loop_levels:
  "levels_fit [] nzs ts \<Longrightarrow>
     peel_loop (rev nzs) (pre @ [merge1 (merge_levels ts) R])
       = Inr (pre @ [merge1 (replicate (length (merge_levels ts)) []) R] @ rev ts)"
proof (induction nzs arbitrary: ts pre R rule: rev_induct)
  case Nil
  then have "ts = []" using levels_fit_length by fastforce
  then show ?case by (simp add: merge_levels_def)
next
  case (snoc n ns)
  from levels_fit_length[OF snoc.prems] obtain tss t where ts: "ts = tss @ [t]"
    by (cases ts rule: rev_cases) auto
  from snoc.prems[unfolded ts levels_fit_snoc]
  have fit: "levels_fit [] ns tss"
    and sh: "length (last ([] # ns)) \<le> length n" "length t = length n"
    by simp_all
  let ?A = "merge_levels ts"
  let ?R1 = "merge1 (replicate (length ?A) []) R"
  have "has_shape ?A n" using has_shape_merge_levels[OF snoc.prems] by simp
  then have step: "peel_level 0 n (merge1 ?A R) = Inr (?A, ?R1)"
    by (rule peel_level_merge1)
  have "length (merge_levels tss) \<le> length t"
    using has_shape_merge_levels[OF fit] sh by (simp add: has_shape_def)
  then have t: "merge1 (replicate (length (merge_levels tss)) []) t = t"
    by (rule merge1_empty_channels)
  have "peel_loop (rev (ns @ [n])) (pre @ [merge1 ?A R])
          = peel_loop (rev ns) ((pre @ [?R1]) @ [merge1 (merge_levels tss) t])"
    using step by (simp add: ts merge_levels_snoc)
  also have "\<dots> = Inr ((pre @ [?R1]) @ [merge1 (replicate (length (merge_levels tss)) []) t] @ rev tss)"
    by (rule snoc.IH[OF fit])
  finally show ?case by (simp add: t ts)
qed


subsection \<open>Peeling the merged levels\<close>

text \<open>
  Claim C3, as the code has it. Let \<open>ts\<close> be per-level coefficient sets, innermost first,
  and \<open>nzeta_lvl_tot\<close> the zeta counts of the shells, innermost first and non-decreasing
  (strictly increasing counts are a special case), level \<open>i\<close> holding in channel \<open>l\<close> the
  \<open>nzeta_lvl_tot[i][l] - nzeta_lvl_tot[i-1][l]\<close> entries that shell \<open>i\<close> adds. Merging the
  levels in order along the zeta axis and peeling the result with \<open>nzeta_lvl_tot\<close> returns
  exactly the levels \<open>ts\<close>, in the order of \<open>nzeta_lvl_tot\<close>: innermost first.
\<close>

theorem peel_merge_levels:
  assumes "levels_fit [] nzeta_lvl_tot ts"
  shows "peel (merge_levels ts) nzeta_lvl_tot = Inr ts"
proof -
  have "peel_loop (rev nzeta_lvl_tot) ([] @ [merge1 (merge_levels ts) []])
          = Inr ([] @ [merge1 (replicate (length (merge_levels ts)) []) []] @ rev ts)"
    using assms by (rule peel_loop_levels)
  then show ?thesis by (simp add: peel_def)
qed

theorem peel_merge_levels_witness:
  "levels_fit [] [[1, 1], [2, 2], [3, 2, 1]]
     [[[10], [20]], [[11], [21]], [[12 :: nat], [], [30]]]
   \<and> merge_levels [[[10], [20]], [[11], [21]], [[12 :: nat], [], [30]]]
       = [[10, 11, 12], [20, 21], [30]]
   \<and> peel [[10, 11, 12], [20, 21], [30 :: nat]] [[1, 1], [2, 2], [3, 2, 1]]
       = Inr [[[10], [20]], [[11], [21]], [[12], [], [30]]]"
proof -
  have fit: "levels_fit [] [[1, 1], [2, 2], [3, 2, 1]]
               [[[10], [20]], [[11], [21]], [[12 :: nat], [], [30]]]"
    by (simp add: base_def All_less_Suc numeral_2_eq_2 numeral_3_eq_3)
  have m: "merge_levels [[[10], [20]], [[11], [21]], [[12 :: nat], [], [30]]]
             = [[10, 11, 12], [20, 21], [30]]"
    by (simp add: merge_levels_def)
  from peel_merge_levels [OF fit] fit m show ?thesis by simp
qed

text \<open>
  The claim as it is worded fails: \<^verbatim>\<open>_peel\<close> returns the levels in the order of the zeta
  counts it is given (innermost first, not outermost first); it removes entries from the front
  of a channel, not from its end; and a zeta count is the size of a whole shell, not of one
  level, so levels sized by their own counts are not reproduced.
\<close>

theorem peel_as_worded_counterexample:
  "peel (merge_levels [[[1 :: nat]], [[2]]]) [[1], [2]] = Inr [[[1]], [[2]]]
   \<and> peel (merge_levels [[[1 :: nat]], [[2]]]) [[1], [2]] \<noteq> Inr (rev [[[1]], [[2]]])
   \<and> peel [[1 :: nat, 2, 3]] [[1]] = Inr [[[1]]]
   \<and> peel (merge_levels [[[1 :: nat]], [[2, 3]]]) [[1], [2]] = Inr [[[1]], [[2]]]"
  by (simp add: peel_def merge_levels_def pops_take_drop)

section \<open>Peeling leaves the caller's coefficients alone\<close>

lemma untouched_refl: "untouched s s"
  by (simp add: untouched_def)

lemma untouched_lengths:
  "untouched s0 s \<Longrightarrow> length (chans s0) \<le> length (chans s) \<and> length (tens s0) \<le> length (tens s)"
  unfolding untouched_def
  by (metis length_take min.cobounded1)

lemma untouched_alloc_chan:
  "untouched s0 s \<Longrightarrow> alloc_chan xs s = (r, s') \<Longrightarrow>
     untouched s0 s' \<and> length (chans s0) \<le> r \<and> tens s' = tens s"
  using untouched_lengths[of s0 s] by (auto simp: alloc_chan_def untouched_def)

lemma untouched_alloc_tens:
  "untouched s0 s \<Longrightarrow> alloc_tens rs s = (t, s') \<Longrightarrow>
     untouched s0 s' \<and> t = length (tens s) \<and> tens s' = tens s @ [rs] \<and> chans s' = chans s"
  using untouched_lengths[of s0 s] by (auto simp: alloc_tens_def untouched_def)

lemma untouched_update_fresh:
  "untouched s0 s \<Longrightarrow> length (chans s0) \<le> r \<Longrightarrow> untouched s0 (s\<lparr>chans := (chans s)[r := xs]\<rparr>)"
  by (simp add: untouched_def)

lemma copy_chans_fresh:
  "copy_chans memo rs s = (rs', s') \<Longrightarrow> untouched s0 s \<Longrightarrow>
     \<forall>p\<in>set memo. length (chans s0) \<le> snd p \<Longrightarrow>
     untouched s0 s' \<and> fresh_for s0 rs' \<and> tens s' = tens s"
proof (induction memo rs s arbitrary: rs' s' rule: copy_chans.induct)
  case (1 memo s)
  then show ?case by (simp add: fresh_for_def)
next
  case (2 memo r rs s)
  show ?case
  proof (cases "map_of memo r")
    case None
    obtain r1 s1 where a: "alloc_chan (chans s ! r) s = (r1, s1)" by (cases "alloc_chan (chans s ! r) s")
    obtain rs2 s2 where c: "copy_chans ((r, r1) # memo) rs s1 = (rs2, s2)"
      by (cases "copy_chans ((r, r1) # memo) rs s1")
    from "2.prems"(1) None a c have res: "rs' = r1 # rs2" "s' = s2" by simp_all
    from untouched_alloc_chan[OF "2.prems"(2) a]
    have u1: "untouched s0 s1" and f1: "length (chans s0) \<le> r1" and t1: "tens s1 = tens s" by simp_all
    have "untouched s0 s2 \<and> fresh_for s0 rs2 \<and> tens s2 = tens s1"
      using "2.IH"(1)[OF None a[symmetric] c u1] f1 "2.prems"(3) by simp
    with f1 t1 res show ?thesis by (simp add: fresh_for_def)
  next
    case (Some r1)
    obtain rs2 s2 where c: "copy_chans memo rs s = (rs2, s2)" by (cases "copy_chans memo rs s")
    from "2.prems"(1) Some c have res: "rs' = r1 # rs2" "s' = s2" by simp_all
    from Some have "(r, r1) \<in> set memo" by (rule map_of_SomeD)
    with "2.prems"(3) have f1: "length (chans s0) \<le> r1" by fastforce
    have "untouched s0 s2 \<and> fresh_for s0 rs2 \<and> tens s2 = tens s"
      using "2.IH"(2)[OF Some c "2.prems"(2,3)] .
    with f1 res show ?thesis by (simp add: fresh_for_def)
  qed
qed

lemma deepcopy_fresh:
  assumes "deepcopy c s = (c', s')"
  shows "untouched s s' \<and> c' < length (tens s') \<and> fresh_for s (tens s' ! c')"
proof -
  obtain rs1 s1 where cc: "copy_chans [] (tens s ! c) s = (rs1, s1)"
    by (cases "copy_chans [] (tens s ! c) s")
  from copy_chans_fresh[OF cc untouched_refl]
  have u1: "untouched s s1" and f: "fresh_for s rs1" by simp_all
  from assms cc have a: "alloc_tens rs1 s1 = (c', s')" by (simp add: deepcopy_def)
  from untouched_alloc_tens[OF u1 a] f show ?thesis by simp
qed

lemma pops_store_frame:
  "pops_store k t l s = (res, s') \<Longrightarrow> untouched s0 s \<Longrightarrow> fresh_for s0 (tens s ! t) \<Longrightarrow>
     untouched s0 s' \<and> tens s' = tens s"
proof (induction k arbitrary: s res s')
  case 0
  then show ?case by simp
next
  case (Suc k)
  show ?case
  proof (cases "l < length (tens s ! t)")
    case False
    with Suc.prems show ?thesis by simp
  next
    case True
    define r where "r = tens s ! t ! l"
    from True Suc.prems(3) have fr: "length (chans s0) \<le> r"
      by (simp add: fresh_for_def r_def)
    show ?thesis
    proof (cases "chans s ! r")
      case Nil
      with True Suc.prems show ?thesis by (simp add: r_def)
    next
      case (Cons x xs)
      define s1 where "s1 = s\<lparr>chans := (chans s)[r := xs]\<rparr>"
      obtain res2 s2 where p: "pops_store k t l s1 = (res2, s2)" by (cases "pops_store k t l s1")
      have u1: "untouched s0 s1" unfolding s1_def by (rule untouched_update_fresh[OF Suc.prems(2) fr])
      have t1: "tens s1 = tens s" by (simp add: s1_def)
      from Suc.IH[OF p u1] Suc.prems(3) t1 have "untouched s0 s2 \<and> tens s2 = tens s1" by simp
      moreover from Suc.prems(1) True Cons p have "s' = s2"
        by (auto simp: r_def s1_def Let_def split: sum.splits)
      ultimately show ?thesis using t1 by simp
    qed
  qed
qed

lemma level_store_frame:
  "level_store l nzs t s = (res, s') \<Longrightarrow> untouched s0 s \<Longrightarrow> fresh_for s0 (tens s ! t) \<Longrightarrow>
     untouched s0 s' \<and> tens s' = tens s \<and> (\<forall>rs. res = Inr rs \<longrightarrow> fresh_for s0 rs)"
proof (induction nzs arbitrary: l s res s')
  case Nil
  then show ?case by (auto simp: fresh_for_def)
next
  case (Cons nz nzs)
  obtain res1 s1 where p: "pops_store (nat nz) t l s = (res1, s1)"
    by (cases "pops_store (nat nz) t l s")
  from pops_store_frame[OF p Cons.prems(2,3)]
  have u1: "untouched s0 s1" and t1: "tens s1 = tens s" by simp_all
  show ?case
  proof (cases res1)
    case (Inl e)
    with Cons.prems(1) p u1 t1 show ?thesis by auto
  next
    case (Inr taken)
    obtain r s2 where a: "alloc_chan taken s1 = (r, s2)" by (cases "alloc_chan taken s1")
    from untouched_alloc_chan[OF u1 a]
    have u2: "untouched s0 s2" and fr: "length (chans s0) \<le> r" and t2: "tens s2 = tens s1" by simp_all
    obtain res3 s3 where lv: "level_store (Suc l) nzs t s2 = (res3, s3)"
      by (cases "level_store (Suc l) nzs t s2")
    from Cons.IH[OF lv u2] Cons.prems(3) t1 t2
    have 3: "untouched s0 s3" "tens s3 = tens s2" "\<forall>rs. res3 = Inr rs \<longrightarrow> fresh_for s0 rs" by simp_all
    from Cons.prems(1) p Inr a lv have "s' = s3"
      and "res = (case res3 of Inl e \<Rightarrow> Inl e | Inr rs \<Rightarrow> Inr (r # rs))"
      by (auto split: sum.splits)
    with 3 fr t1 t2 show ?thesis by (auto simp: fresh_for_def split: sum.splits)
  qed
qed

lemma loop_store_frame:
  "loop_store nzss coef_lvl s = (res, s') \<Longrightarrow> untouched s0 s \<Longrightarrow>
     last coef_lvl < length (tens s) \<Longrightarrow> fresh_for s0 (tens s ! last coef_lvl) \<Longrightarrow>
     untouched s0 s'"
proof (induction nzss arbitrary: coef_lvl s)
  case Nil
  then show ?case by simp
next
  case (Cons nzs nzss)
  obtain res1 s1 where lv: "level_store 0 nzs (last coef_lvl) s = (res1, s1)"
    by (cases "level_store 0 nzs (last coef_lvl) s")
  from level_store_frame[OF lv Cons.prems(2,4)]
  have u1: "untouched s0 s1" and t1: "tens s1 = tens s"
    and f1: "\<forall>rs. res1 = Inr rs \<longrightarrow> fresh_for s0 rs" by simp_all
  show ?case
  proof (cases res1)
    case (Inl e)
    with Cons.prems(1) lv u1 show ?thesis by simp
  next
    case (Inr rs)
    obtain t s2 where a: "alloc_tens rs s1 = (t, s2)" by (cases "alloc_tens rs s1")
    from untouched_alloc_tens[OF u1 a]
    have u2: "untouched s0 s2" and t: "t = length (tens s1)" and t2: "tens s2 = tens s1 @ [rs]" by simp_all
    from Cons.prems(1) lv Inr a have "loop_store nzss (coef_lvl @ [t]) s2 = (res, s')" by simp
    moreover have "last (coef_lvl @ [t]) < length (tens s2)" by (simp add: t t2)
    moreover have "fresh_for s0 (tens s2 ! last (coef_lvl @ [t]))" using f1 Inr by (simp add: t t2)
    ultimately show ?thesis using Cons.IH u2 by blast
  qed
qed

lemma untouched_nth:
  assumes "untouched s s'"
  shows "a < length (chans s) \<Longrightarrow> chans s' ! a = chans s ! a"
    and "t < length (tens s) \<Longrightarrow> tens s' ! t = tens s ! t"
proof -
  show "chans s' ! a = chans s ! a" if "a < length (chans s)"
  proof -
    have "chans s ! a = take (length (chans s)) (chans s') ! a"
      using assms by (simp add: untouched_def)
    then show ?thesis using that by simp
  qed
  show "tens s' ! t = tens s ! t" if "t < length (tens s)"
  proof -
    have "tens s ! t = take (length (tens s)) (tens s') ! t"
      using assms by (simp add: untouched_def)
    then show ?thesis using that by simp
  qed
qed


text \<open>
  Claim C9. Whatever the store \<open>s\<close>, the reference \<open>coef\<close> and the zeta counts are, and
  whether \<^verbatim>\<open>_peel\<close> returns or raises, every list object of \<open>s\<close> is in the store that the call
  leaves, at its place and with its content; so the coefficient set that \<open>coef\<close> refers to
  reads the same after the call as before it.
\<close>

theorem peel_store_input_untouched:
  "untouched s (snd (peel_store coef nzeta_lvl_tot s))
   \<and> (coef < length (tens s) \<and> (\<forall>r\<in>set (tens s ! coef). r < length (chans s)) \<longrightarrow>
        read_coefs (snd (peel_store coef nzeta_lvl_tot s)) coef = read_coefs s coef)"
proof -
  obtain c s0 where d: "deepcopy coef s = (c, s0)" by (cases "deepcopy coef s")
  obtain res s1 where l: "loop_store (rev nzeta_lvl_tot) [c] s0 = (res, s1)"
    by (cases "loop_store (rev nzeta_lvl_tot) [c] s0")
  from deepcopy_fresh[OF d]
  have "untouched s s0" "last [c] < length (tens s0)" "fresh_for s (tens s0 ! last [c])" by simp_all
  from loop_store_frame[OF l this] have u: "untouched s s1" .
  have s': "snd (peel_store coef nzeta_lvl_tot s) = s1"
    using d l by (simp add: peel_store_def split: sum.splits)
  have "read_coefs s1 coef = read_coefs s coef"
    if "coef < length (tens s) \<and> (\<forall>r\<in>set (tens s ! coef). r < length (chans s))"
    using that untouched_nth[OF u] by (simp add: read_coefs_def)
  with u show ?thesis unfolding s' by blast
qed


theorem peel_store_input_untouched_witness:
  "fst (peel_store 0 [[1, 1], [2, 2], [3, 2, 1]] example_store) = Inr [4, 3, 2]
   \<and> read_coefs (snd (peel_store 0 [[1, 1], [2, 2], [3, 2, 1]] example_store)) 0 = [[10, 11, 12], [20, 21], [30]]
   \<and> map (read_coefs (snd (peel_store 0 [[1, 1], [2, 2], [3, 2, 1]] example_store))) [4, 3, 2]
        = [[[10], [20]], [[11], [21]], [[12], [], [30]]]"
proof -
  have ev: "peel_store 0 [[1, 1], [2, 2], [3, 2, 1]] example_store =
    (Inr [4, 3, 2],
     \<lparr>chans = [[10, 11, 12], [20, 21], [30], [], [], [], [12], [], [30], [11], [21], [10], [20]],
      tens = [[0, 1, 2], [3, 4, 5], [6, 7, 8], [9, 10], [11, 12]]\<rparr>)"
    by code_simp
  have wf: "0 < length (tens example_store) \<and> (\<forall>r\<in>set (tens example_store ! 0). r < length (chans example_store))"
    by (simp add: example_store_def)
  from peel_store_input_untouched [of example_store 0 "[[1, 1], [2, 2], [3, 2, 1]]"] wf
  have "read_coefs (snd (peel_store 0 [[1, 1], [2, 2], [3, 2, 1]] example_store)) 0 = read_coefs example_store 0"
    by blast
  moreover have "read_coefs example_store 0 = [[10, 11, 12], [20, 21], [30]]"
    by (simp add: read_coefs_def example_store_def)
  ultimately show ?thesis by (simp add: ev read_coefs_def)
qed

section \<open>The store model refines the value model\<close>

lemma copy_chans_distinct:
  "distinct rs \<Longrightarrow> \<forall>r\<in>set rs. r \<notin> fst ` set memo \<and> r < length (chans s) \<Longrightarrow>
     copy_chans memo rs s =
       ([length (chans s)..<length (chans s) + length rs],
        s\<lparr>chans := chans s @ map (\<lambda>r. chans s ! r) rs\<rparr>)"
proof (induction rs arbitrary: memo s)
  case Nil
  then show ?case by simp
next
  case (Cons r rs)
  define s1 where "s1 = s\<lparr>chans := chans s @ [chans s ! r]\<rparr>"
  have none: "map_of memo r = None" using Cons.prems(2) by (simp add: map_of_eq_None_iff)
  have "\<forall>q\<in>set rs. q \<notin> fst ` set ((r, length (chans s)) # memo) \<and> q < length (chans s1)"
    using Cons.prems by (auto simp: s1_def)
  with Cons.IH[of "(r, length (chans s)) # memo" s1] Cons.prems(1)
  have IH: "copy_chans ((r, length (chans s)) # memo) rs s1 =
       ([length (chans s1)..<length (chans s1) + length rs],
        s1\<lparr>chans := chans s1 @ map (\<lambda>r. chans s1 ! r) rs\<rparr>)"
    by simp
  have same: "map (\<lambda>q. chans s1 ! q) rs = map (\<lambda>q. chans s ! q) rs"
    using Cons.prems(2) by (auto simp: s1_def nth_append)
  have u: "[length (chans s)..<length (chans s) + length (r # rs)]
             = length (chans s) # [length (chans s1)..<length (chans s1) + length rs]"
  proof -
    have "[length (chans s)..<length (chans s) + length (r # rs)]
            = length (chans s) # [Suc (length (chans s))..<length (chans s) + length (r # rs)]"
      by (rule upt_conv_Cons) simp
    moreover have "length (chans s1) = Suc (length (chans s))" by (simp add: s1_def)
    moreover have "length (chans s) + length (r # rs) = Suc (length (chans s)) + length rs" by simp
    ultimately show ?thesis by (simp only:)
  qed
  have st: "s1\<lparr>chans := chans s1 @ map (\<lambda>r. chans s1 ! r) rs\<rparr>
              = s\<lparr>chans := chans s @ map (\<lambda>q. chans s ! q) (r # rs)\<rparr>"
    unfolding same by (simp add: s1_def)
  have a: "alloc_chan (chans s ! r) s = (length (chans s), s1)"
    by (simp add: alloc_chan_def s1_def)
  show ?case unfolding u using none a IH[unfolded st] by simp
qed

lemma deepcopy_wf:
  assumes "wf_coefs s c"
  shows "deepcopy c s =
           (length (tens s),
            s\<lparr>chans := chans s @ map (\<lambda>r. chans s ! r) (tens s ! c),
              tens := tens s @ [[length (chans s)..<length (chans s) + length (tens s ! c)]]\<rparr>)"
proof -
  have "copy_chans [] (tens s ! c) s =
       ([length (chans s)..<length (chans s) + length (tens s ! c)],
        s\<lparr>chans := chans s @ map (\<lambda>r. chans s ! r) (tens s ! c)\<rparr>)"
    using assms by (intro copy_chans_distinct) (auto simp: wf_coefs_def)
  then show ?thesis by (simp add: deepcopy_def alloc_tens_def)
qed

lemma pops_store_Inr:
  "pops k (chans s ! (tens s ! t ! l)) = Inr (ys, rest) \<Longrightarrow> l < length (tens s ! t) \<Longrightarrow>
     tens s ! t ! l < length (chans s) \<Longrightarrow>
     pops_store k t l s = (Inr ys, s\<lparr>chans := (chans s)[tens s ! t ! l := rest]\<rparr>)"
proof (induction k arbitrary: s ys)
  case 0
  then have "ys = []" "rest = chans s ! (tens s ! t ! l)" by simp_all
  then show ?case by (simp add: list_update_id)
next
  case (Suc k)
  define r where "r = tens s ! t ! l"
  from Suc.prems(1) obtain x xs ys' where c: "chans s ! r = x # xs"
    and p: "pops k xs = Inr (ys', rest)" and ys: "ys = x # ys'"
    by (cases "chans s ! r") (auto simp: r_def split: sum.splits)
  define s1 where "s1 = s\<lparr>chans := (chans s)[r := xs]\<rparr>"
  have "pops_store k t l s1 = (Inr ys', s1\<lparr>chans := (chans s1)[tens s1 ! t ! l := rest]\<rparr>)"
    using Suc.prems(2,3) p by (intro Suc.IH) (simp_all add: s1_def r_def)
  then show ?case using Suc.prems(2) c ys
    by (simp add: Let_def s1_def flip: r_def)
qed

lemma pops_store_Inl:
  "pops k (chans s ! (tens s ! t ! l)) = Inl e \<Longrightarrow> l < length (tens s ! t) \<Longrightarrow>
     tens s ! t ! l < length (chans s) \<Longrightarrow> fst (pops_store k t l s) = Inl e"
proof (induction k arbitrary: s)
  case 0
  then show ?case by simp
next
  case (Suc k)
  define r where "r = tens s ! t ! l"
  show ?case
  proof (cases "chans s ! r")
    case Nil
    with Suc.prems show ?thesis by (simp add: Let_def flip: r_def)
  next
    case (Cons x xs)
    define s1 where "s1 = s\<lparr>chans := (chans s)[r := xs]\<rparr>"
    from Suc.prems(1) Cons have p: "pops k xs = Inl e" by (auto simp: r_def split: sum.splits)
    have "fst (pops_store k t l s1) = Inl e"
      using Suc.prems(2,3) p by (intro Suc.IH) (simp_all add: s1_def r_def)
    then show ?thesis using Suc.prems(2) Cons
      by (cases "pops_store k t l s1") (simp add: Let_def s1_def flip: r_def)
  qed
qed


lemma level_rel_cons:
  assumes wf: "wf_coefs s t"
    and s2: "tens s2 = tens s" "length (chans s2) = Suc (length (chans s))"
      "chans s2 ! length (chans s) = taken"
      "\<forall>a<length (chans s). a \<notin> set (tens s ! t) \<longrightarrow> chans s2 ! a = chans s ! a"
    and rel: "level_rel s2 t s' rs new lst'"
  shows "level_rel s t s' (length (chans s) # rs) (taken # new) lst'"
proof -
  let ?r = "length (chans s)"
  from wf have refs: "\<forall>q\<in>set (tens s ! t). q < ?r" by (simp add: wf_coefs_def)
  then have notin: "?r \<notin> set (tens s ! t)" by auto
  from rel have r: "tens s' = tens s2" "length (chans s2) \<le> length (chans s')"
    "map (\<lambda>r. chans s' ! r) rs = new" "read_coefs s' t = lst'"
    "\<forall>r\<in>set rs. length (chans s2) \<le> r \<and> r < length (chans s')" "distinct rs"
    "\<forall>a<length (chans s2). a \<notin> set (tens s2 ! t) \<longrightarrow> chans s' ! a = chans s2 ! a"
    by (simp_all add: level_rel_def)
  have keep: "chans s' ! ?r = taken" using r(7) s2 notin by simp
  have "?r \<notin> set rs" using r(5) s2(2) by auto
  moreover have "\<forall>a<?r. a \<notin> set (tens s ! t) \<longrightarrow> chans s' ! a = chans s ! a"
    using r(7) s2 by simp
  moreover have "\<forall>q\<in>set (?r # rs). ?r \<le> q \<and> q < length (chans s')"
    using r(2,5) s2(2) by auto
  ultimately show ?thesis
    using r s2 keep by (simp add: level_rel_def)
qed

lemma read_coefs_update:
  assumes "distinct (tens s ! t)" "l < length (tens s ! t)"
    and "tens s2 = tens s"
    and "chans s2 ! (tens s ! t ! l) = rest"
    and "\<forall>q\<in>set (tens s ! t). q \<noteq> tens s ! t ! l \<longrightarrow> chans s2 ! q = chans s ! q"
  shows "read_coefs s2 t = (read_coefs s t)[l := rest]"
proof (rule nth_equalityI)
  show "length (read_coefs s2 t) = length ((read_coefs s t)[l := rest])"
    using assms(3) by (simp add: read_coefs_def)
next
  fix i assume "i < length (read_coefs s2 t)"
  then have i: "i < length (tens s ! t)" using assms(3) by (simp add: read_coefs_def)
  show "read_coefs s2 t ! i = (read_coefs s t)[l := rest] ! i"
  proof (cases "i = l")
    case True
    with i assms(3,4) show ?thesis by (simp add: read_coefs_def)
  next
    case False
    with i assms(1,2) have "tens s ! t ! i \<noteq> tens s ! t ! l" by (simp add: nth_eq_iff_index_eq)
    with False i assms(3,5) show ?thesis by (simp add: read_coefs_def)
  qed
qed

lemma level_store_refines:
  "wf_coefs s t \<Longrightarrow> refines_level l nzs t s"
proof (induction nzs arbitrary: l s)
  case Nil
  then show ?case by (simp add: refines_level_def level_rel_def)
next
  case (Cons nz nzs)
  let ?lst = "read_coefs s t"
  let ?n = "length (chans s)"
  from Cons.prems have refs: "\<forall>q\<in>set (tens s ! t). q < ?n"
    and dist: "distinct (tens s ! t)" and tl: "t < length (tens s)"
    by (simp_all add: wf_coefs_def)
  have step: "refines_level l (nz # nzs) t s"
    if p: "pops_store (nat nz) t l s = (Inr taken, s1)"
      and pl: "peel_level l (nz # nzs) ?lst =
                 (case peel_level (Suc l) nzs lst2 of
                    Inl e \<Rightarrow> Inl e | Inr (new, lst') \<Rightarrow> Inr (taken # new, lst'))"
      and t1: "tens s1 = tens s" and n1: "length (chans s1) = ?n"
      and r1: "read_coefs s1 t = lst2"
      and f1: "\<forall>a<?n. a \<notin> set (tens s ! t) \<longrightarrow> chans s1 ! a = chans s ! a"
    for taken s1 lst2
  proof -
    define s2 where "s2 = s1\<lparr>chans := chans s1 @ [taken]\<rparr>"
    have a: "alloc_chan taken s1 = (?n, s2)" by (simp add: alloc_chan_def s2_def n1)
    have wf2: "wf_coefs s2 t" using Cons.prems by (auto simp: wf_coefs_def s2_def t1 n1)
    have r2: "read_coefs s2 t = lst2"
      using r1 refs by (auto simp: read_coefs_def s2_def t1 n1 nth_append)
    have s2: "tens s2 = tens s" "length (chans s2) = Suc ?n" "chans s2 ! ?n = taken"
      "\<forall>a<?n. a \<notin> set (tens s ! t) \<longrightarrow> chans s2 ! a = chans s ! a"
      using f1 by (simp_all add: s2_def t1 n1 nth_append)
    from Cons.IH[OF wf2, of "Suc l"] have IH: "refines_level (Suc l) nzs t s2" .
    show ?thesis
    proof (cases "peel_level (Suc l) nzs lst2")
      case (Inl e)
      with IH have "fst (level_store (Suc l) nzs t s2) = Inl e"
        by (simp add: refines_level_def r2)
      with Inl pl p a show ?thesis
        by (cases "level_store (Suc l) nzs t s2") (simp add: refines_level_def)
    next
      case (Inr res)
      obtain new lst' where res: "res = (new, lst')" by (cases res)
      with Inr IH obtain rs s' where
        lv: "level_store (Suc l) nzs t s2 = (Inr rs, s')" and rel: "level_rel s2 t s' rs new lst'"
        by (auto simp: refines_level_def r2)
      from level_rel_cons[OF Cons.prems s2 rel]
      have "level_rel s t s' (?n # rs) (taken # new) lst'" .
      with Inr res pl p a lv show ?thesis by (simp add: refines_level_def)
    qed
  qed
  show ?case
  proof (cases "nz \<le> 0")
    case True
    then have A: "pops_store (nat nz) t l s = (Inr [], s)" by simp
    have B: "peel_level l (nz # nzs) ?lst =
                 (case peel_level (Suc l) nzs ?lst of
                    Inl e \<Rightarrow> Inl e | Inr (new, lst') \<Rightarrow> Inr ([] # new, lst'))"
      using True by simp
    show ?thesis by (rule step[OF A B]) simp_all
  next
    case False
    then obtain k where k: "nat nz = Suc k" by (cases "nat nz") auto
    show ?thesis
    proof (cases "l < length (tens s ! t)")
      case out: False
      then have "peel_level l (nz # nzs) ?lst = Inl IndexError"
        using \<open>\<not> nz \<le> 0\<close> by (simp add: read_coefs_def)
      moreover have "fst (level_store l (nz # nzs) t s) = Inl IndexError"
        using out by (simp add: k)
      ultimately show ?thesis by (simp add: refines_level_def)
    next
      case True
      define r0 where "r0 = tens s ! t ! l"
      have r0: "r0 < ?n" "r0 \<in> set (tens s ! t)" using True refs by (simp_all add: r0_def)
      have ll: "?lst ! l = chans s ! r0" using True by (simp add: read_coefs_def r0_def)
      show ?thesis
      proof (cases "pops (nat nz) (chans s ! r0)")
        case (Inl e)
        then have "peel_level l (nz # nzs) ?lst = Inl e"
          using \<open>\<not> nz \<le> 0\<close> True ll by (simp add: read_coefs_def)
        moreover have "fst (pops_store (nat nz) t l s) = Inl e"
          using Inl True r0(1) by (intro pops_store_Inl) (simp_all add: r0_def)
        then have "fst (level_store l (nz # nzs) t s) = Inl e"
          by (cases "pops_store (nat nz) t l s") simp
        ultimately show ?thesis by (simp add: refines_level_def)
      next
        case (Inr pr)
        obtain taken rest where pr: "pr = (taken, rest)" by (cases pr)
        define s1 where "s1 = s\<lparr>chans := (chans s)[r0 := rest]\<rparr>"
        have A: "pops_store (nat nz) t l s = (Inr taken, s1)"
          unfolding s1_def r0_def using Inr pr True r0(1)
          by (intro pops_store_Inr) (simp_all add: r0_def)
        have B: "peel_level l (nz # nzs) ?lst =
                 (case peel_level (Suc l) nzs (?lst[l := rest]) of
                    Inl e \<Rightarrow> Inl e | Inr (new, lst') \<Rightarrow> Inr (taken # new, lst'))"
          using \<open>\<not> nz \<le> 0\<close> True ll Inr pr by (simp add: read_coefs_def)
        have C: "read_coefs s1 t = ?lst[l := rest]"
          using dist True r0(1) by (intro read_coefs_update) (auto simp: s1_def r0_def)
        have D: "\<forall>a<?n. a \<notin> set (tens s ! t) \<longrightarrow> chans s1 ! a = chans s ! a"
        proof (intro allI impI)
          fix a assume "a < ?n" "a \<notin> set (tens s ! t)"
          with r0(2) have "a \<noteq> r0" by blast
          then show "chans s1 ! a = chans s ! a" by (simp add: s1_def)
        qed
        show ?thesis by (rule step[OF A B _ _ C D]) (simp_all add: s1_def)
      qed
    qed
  qed
qed


lemma loop_store_refines:
  "loop_inv s addrs \<Longrightarrow> refines_loop nzss addrs s"
proof (induction nzss arbitrary: addrs s)
  case Nil
  then show ?case by (simp add: refines_loop_def)
next
  case (Cons nzs nzss)
  let ?t = "last addrs"
  from Cons.prems have ne: "addrs \<noteq> []" and wf: "wf_coefs s ?t"
    and old: "\<forall>a\<in>set (butlast addrs). a < length (tens s) \<and>
        (\<forall>r\<in>set (tens s ! a). r < length (chans s) \<and> r \<notin> set (tens s ! ?t))"
    by (simp_all add: loop_inv_def)
  from wf have tl: "?t < length (tens s)" and trefs: "\<forall>r\<in>set (tens s ! ?t). r < length (chans s)"
    by (simp_all add: wf_coefs_def)
  have lastm: "last (map (read_coefs s) addrs) = read_coefs s ?t" using ne by (simp add: last_map)
  from level_store_refines[OF wf] have lv: "refines_level 0 nzs ?t s" .
  show ?case
  proof (cases "peel_level 0 nzs (read_coefs s ?t)")
    case (Inl e)
    with lv have "fst (level_store 0 nzs ?t s) = Inl e" by (simp add: refines_level_def)
    then have "fst (loop_store (nzs # nzss) addrs s) = Inl e"
      by (cases "level_store 0 nzs ?t s") simp
    with Inl show ?thesis by (simp add: refines_loop_def lastm)
  next
    case (Inr res)
    obtain new lst' where res: "res = (new, lst')" by (cases res)
    with Inr lv obtain rs s1 where
      ls: "level_store 0 nzs ?t s = (Inr rs, s1)" and rel: "level_rel s ?t s1 rs new lst'"
      by (auto simp: refines_level_def)
    from rel have r: "tens s1 = tens s" "length (chans s) \<le> length (chans s1)"
      "map (\<lambda>r. chans s1 ! r) rs = new" "read_coefs s1 ?t = lst'"
      "\<forall>r\<in>set rs. length (chans s) \<le> r \<and> r < length (chans s1)" "distinct rs"
      "\<forall>a<length (chans s). a \<notin> set (tens s ! ?t) \<longrightarrow> chans s1 ! a = chans s ! a"
      by (simp_all add: level_rel_def)
    define t' where "t' = length (tens s1)"
    define s2 where "s2 = s1\<lparr>tens := tens s1 @ [rs]\<rparr>"
    have a: "alloc_tens rs s1 = (t', s2)" by (simp add: alloc_tens_def t'_def s2_def)
    have step: "loop_store (nzs # nzss) addrs s = loop_store nzss (addrs @ [t']) s2"
      using ls a by simp
    have pstep: "peel_loop (nzs # nzss) (map (read_coefs s) addrs)
                   = peel_loop nzss (butlast (map (read_coefs s) addrs) @ [lst', new])"
      using Inr res by (simp add: lastm)
    have rd_old: "read_coefs s2 a = read_coefs s a" if "a \<in> set (butlast addrs)" for a
    proof -
      from old that have al: "a < length (tens s)"
        and ar: "\<forall>q\<in>set (tens s ! a). q < length (chans s) \<and> q \<notin> set (tens s ! ?t)" by auto
      have "tens s2 ! a = tens s ! a" using al by (simp add: s2_def r(1) nth_append)
      moreover have "\<forall>q\<in>set (tens s ! a). chans s2 ! q = chans s ! q"
        using ar r(7) by (simp add: s2_def)
      ultimately show ?thesis by (simp add: read_coefs_def)
    qed
    have rd_t: "read_coefs s2 ?t = lst'"
    proof -
      have "tens s2 ! ?t = tens s1 ! ?t" using tl by (simp add: s2_def r(1) nth_append)
      then have "read_coefs s2 ?t = read_coefs s1 ?t" by (simp add: read_coefs_def s2_def)
      then show ?thesis by (simp add: r(4))
    qed
    have rd_new: "read_coefs s2 t' = new"
      using r(3) by (simp add: read_coefs_def s2_def t'_def)
    have "map (read_coefs s2) (butlast addrs @ [?t] @ [t'])
            = map (read_coefs s) (butlast addrs) @ [lst', new]"
      using rd_old rd_t rd_new by simp
    moreover have "butlast addrs @ [?t] @ [t'] = addrs @ [t']" using ne by simp
    moreover have "map (read_coefs s) (butlast addrs) = butlast (map (read_coefs s) addrs)"
      by (simp add: map_butlast)
    ultimately have state: "map (read_coefs s2) (addrs @ [t'])
            = butlast (map (read_coefs s) addrs) @ [lst', new]"
      by (simp only:)
    have inv: "loop_inv s2 (addrs @ [t'])"
      unfolding loop_inv_def
    proof (intro conjI)
      show "addrs @ [t'] \<noteq> []" by simp
      show "wf_coefs s2 (last (addrs @ [t']))"
        using r(5,6) by (auto simp: wf_coefs_def s2_def t'_def)
      show "\<forall>a\<in>set (butlast (addrs @ [t'])). a < length (tens s2) \<and>
              (\<forall>q\<in>set (tens s2 ! a).
                 q < length (chans s2) \<and> q \<notin> set (tens s2 ! last (addrs @ [t'])))"
      proof (intro ballI)
      fix a assume "a \<in> set (butlast (addrs @ [t']))"
      then have a: "a \<in> set addrs" by (simp add: butlast_append)
      have al: "a < length (tens s)" and ar: "\<forall>q\<in>set (tens s ! a). q < length (chans s)"
      proof -
        from a ne have "a \<in> set (butlast addrs) \<or> a = ?t"
          by (metis append_butlast_last_id in_set_conv_decomp_first rotate1.simps(2) set_ConsD set_rotate1)
        with old tl trefs show "a < length (tens s)" "\<forall>q\<in>set (tens s ! a). q < length (chans s)"
          by auto
      qed
      have 1: "a < length (tens s2)" using al by (simp add: s2_def r(1))
      have 2: "\<forall>q\<in>set (tens s2 ! a).
              q < length (chans s2) \<and> q \<notin> set (tens s2 ! last (addrs @ [t']))"
      proof
        fix q assume "q \<in> set (tens s2 ! a)"
        then have q: "q \<in> set (tens s ! a)" using al by (simp add: s2_def r(1) nth_append)
        with ar have ql: "q < length (chans s)" by simp
        then have "q \<notin> set rs" using r(5) by auto
        with ql r(2) show "q < length (chans s2) \<and> q \<notin> set (tens s2 ! last (addrs @ [t']))"
          by (simp add: s2_def t'_def)
      qed
      from 1 2 show "a < length (tens s2) \<and>
              (\<forall>q\<in>set (tens s2 ! a).
                 q < length (chans s2) \<and> q \<notin> set (tens s2 ! last (addrs @ [t'])))" ..
      qed
    qed
    have "refines_loop nzss (addrs @ [t']) s2" by (rule Cons.IH[OF inv])
    then show ?thesis unfolding refines_loop_def step pstep state .
  qed
qed

text \<open>
  \<^verbatim>\<open>_peel\<close> on the store and \<^verbatim>\<open>_peel\<close> on values: for an argument whose channel lists are
  distinct objects, both raise the same exception, or the references that the store model
  returns read, in the store it leaves, as the levels that the value model returns.
\<close>

lemma peel_store_refines_peel:
  assumes "wf_coefs s coef"
  shows "case peel (read_coefs s coef) nzeta_lvl_tot of
           Inl e \<Rightarrow> fst (peel_store coef nzeta_lvl_tot s) = Inl e
         | Inr levels \<Rightarrow>
             (\<exists>addrs s'. peel_store coef nzeta_lvl_tot s = (Inr addrs, s') \<and>
                map (read_coefs s') addrs = levels)"
proof -
  let ?n = "length (chans s)"
  let ?k = "length (tens s ! coef)"
  define c0 where "c0 = length (tens s)"
  define s0 where "s0 = s\<lparr>chans := chans s @ map (\<lambda>r. chans s ! r) (tens s ! coef),
              tens := tens s @ [[?n..<?n + ?k]]\<rparr>"
  have d: "deepcopy coef s = (c0, s0)" using deepcopy_wf[OF assms] by (simp add: c0_def s0_def)
  have rd: "read_coefs s0 c0 = read_coefs s coef"
    by (rule nth_equalityI) (simp_all add: read_coefs_def s0_def c0_def nth_append)
  have inv: "loop_inv s0 [c0]"
    by (auto simp: loop_inv_def wf_coefs_def s0_def c0_def)
  from loop_store_refines[OF inv, of "rev nzeta_lvl_tot"]
  have rl: "refines_loop (rev nzeta_lvl_tot) [c0] s0" .
  show ?thesis
  proof (cases "peel_loop (rev nzeta_lvl_tot) [read_coefs s coef]")
    case (Inl e)
    with rl have "fst (loop_store (rev nzeta_lvl_tot) [c0] s0) = Inl e"
      by (simp add: refines_loop_def rd)
    then have "fst (peel_store coef nzeta_lvl_tot s) = Inl e"
      using d by (cases "loop_store (rev nzeta_lvl_tot) [c0] s0") (simp add: peel_store_def)
    with Inl show ?thesis by (simp add: peel_def)
  next
    case (Inr cl)
    with rl obtain addrs' s' where
      l: "loop_store (rev nzeta_lvl_tot) [c0] s0 = (Inr addrs', s')"
      and m: "map (read_coefs s') addrs' = cl"
      by (auto simp: refines_loop_def rd)
    have "peel_store coef nzeta_lvl_tot s = (Inr (rev (tl addrs')), s')"
      using d l by (simp add: peel_store_def)
    moreover have "map (read_coefs s') (rev (tl addrs')) = rev (tl cl)"
      using m by (cases addrs') (auto simp: rev_map)
    ultimately show ?thesis using Inr by (simp add: peel_def)
  qed
qed

section \<open>The order of the onion optimisation\<close>

lemma coef_subset_one_channel:
  "coef_subset [2] (Some [1]) [[11 :: nat, 12]] = Inr [[[12]]]"
  "coef_subset [1] None [[11 :: nat, 12]] = Inr [[[11]]]"
  "coef_subset [2] (Some [1]) [[11 :: nat, 12, 13]] = Inr [[[12]]]"
  "coef_subset [1] None [[11 :: nat, 12, 13]] = Inr [[[11]]]"
  "coef_subset [3] (Some [2]) [[11 :: nat, 12, 13]] = Inr [[[13]]]"
  by (simp_all add: coef_subset_def getitem2_def getitem_def py_range_def enumerate_eq_zip upt_rec)

text \<open>
  Claim C1 asks that a shell is optimised after its parent whatever the order of the list. The
  loop of \<^verbatim>\<open>_do_onion_opt\<close> follows the list: with the child first (shell 0 with two zeta
  functions, its parent shell 1 with one), \<^verbatim>\<open>coefs[deps[0]]\<close> is still \<^verbatim>\<open>None\<close> when shell 0
  is optimised, the minimizer gets no frozen block, and the child's result is its new zeta
  entry alone. The same two shells with the parent first give the child the parent's entry
  followed by its own. (The minimizer here returns its initial guess; the guess is the pw
  recipe with one channel holding the entries 11 and 12.)
\<close>

theorem onion_child_before_parent:
  "do_onion_opt (\<lambda>coef_init coef_inner iconfs ibands. coef_init)
       [[2], [1]] [[0 :: nat], [0]] [[0 :: nat], [0]] [Some 1, None] (GuessPW [[11 :: nat, 12]])
     = Inr [Some [[[12]]], Some [[[11]]]]
   \<and> do_onion_opt (\<lambda>coef_init coef_inner iconfs ibands. coef_init)
       [[1], [2]] [[0 :: nat], [0]] [[0 :: nat], [0]] [None, Some 0] (GuessPW [[11 :: nat, 12]])
     = Inr [Some [[[11]]], Some [[[11, 12]]]]"
  by (simp add: do_onion_opt_def coef_guess_def getitem_def coef_subset_one_channel upt_rec)

text \<open>
  Claim C2 asks that the tensor of every shell with a parent is the parent's tensor with the
  shell's new zeta entries appended. Of three shells with the zeta counts 3, 1 and 2, where
  shell 0 names shell 2 as its parent and shell 2 names shell 1, shell 2 is its parent's
  tensor extended, but shell 0, optimised before its parent, is not: its tensor is its new
  entry alone.
\<close>

theorem onion_parent_later_not_extended:
  "do_onion_opt (\<lambda>coef_init coef_inner iconfs ibands. coef_init)
       [[3], [1], [2]] [[0 :: nat], [0], [0]] [[0 :: nat], [0], [0]] [Some 2, None, Some 1]
       (GuessPW [[11 :: nat, 12, 13]])
     = Inr [Some [[[13]]], Some [[[11]]], Some [[[11, 12]]]]
   \<and> [[[11 :: nat, 12]]] = merge2 [[[11]]] [[[12]]]
   \<and> [[[13 :: nat]]] \<noteq> merge2 [[[11, 12]]] [[[13]]]"
  by (simp add: do_onion_opt_def coef_guess_def getitem_def coef_subset_one_channel upt_rec)

text \<open>
  What the loop does keep: a shell listed after its parent (\<open>0 \<le> deps[i] < i\<close>) gets the
  tensor of the parent, as it is in the result, merged with what the minimizer returns for
  the shell when the parent's tensor is the frozen block.
\<close>

lemma onion_loop_append:
  "onion_loop opt guess nzeta (xs @ ys) coefs =
     (case onion_loop opt guess nzeta xs coefs of
        Inl e \<Rightarrow> Inl e
      | Inr coefs1 \<Rightarrow> onion_loop opt guess nzeta ys coefs1)"
proof (induction xs arbitrary: coefs)
  case Nil
  then show ?case by simp
next
  case (Cons x xs)
  obtain iorb index nz ic ib where x: "x = (iorb, index, nz, ic, ib)" by (cases x) auto
  show ?case unfolding x using Cons.IH
    by (simp add: Let_def split: sum.splits option.splits)
qed

lemma onion_loop_frame:
  "onion_loop opt guess nzeta sh coefs = Inr coefs' \<Longrightarrow>
     length coefs' = length coefs \<and> (\<forall>j. j \<notin> fst ` set sh \<longrightarrow> coefs' ! j = coefs ! j)"
proof (induction sh arbitrary: coefs)
  case Nil
  then show ?case by simp
next
  case (Cons x sh)
  obtain iorb index nz ic ib where x: "x = (iorb, index, nz, ic, ib)" by (cases x) auto
  from Cons.prems obtain v where
    rest: "onion_loop opt guess nzeta sh (coefs[iorb := Some v]) = Inr coefs'"
    unfolding x by (auto simp: Let_def split: sum.splits option.splits)
  from Cons.IH[OF rest] show ?case unfolding x by auto
qed

lemma onion_loop_filled:
  "onion_loop opt guess nzeta sh coefs = Inr coefs' \<Longrightarrow>
     \<forall>j\<in>fst ` set sh. j < length coefs \<longrightarrow> coefs' ! j \<noteq> None"
proof (induction sh arbitrary: coefs)
  case Nil
  then show ?case by simp
next
  case (Cons x sh)
  obtain iorb index nz ic ib where x: "x = (iorb, index, nz, ic, ib)" by (cases x) auto
  from Cons.prems obtain v where
    rest: "onion_loop opt guess nzeta sh (coefs[iorb := Some v]) = Inr coefs'"
    unfolding x by (auto simp: Let_def split: sum.splits option.splits)
  show ?case
  proof
    fix j assume j: "j \<in> fst ` set (x # sh)"
    show "j < length coefs \<longrightarrow> coefs' ! j \<noteq> None"
    proof (cases "j \<in> fst ` set sh")
      case True
      with Cons.IH[OF rest] show ?thesis by auto
    next
      case False
      with j have "j = iorb" by (simp add: x)
      with False onion_loop_frame[OF rest] show ?thesis by auto
    qed
  qed
qed

lemma onion_step_parent:
  assumes "onion_loop opt guess nzeta ((i, Some p, nz, ic, ib) # rest) coefs1 = Inr coefs"
    and "0 \<le> p" "nat p < length coefs1" "coefs1 ! nat p = Some inner"
  shows "\<exists>coef_init. coef_guess guess nz (Some (nzeta ! nat p)) = Inr coef_init \<and>
           onion_loop opt guess nzeta rest
             (coefs1[i := Some (merge2 inner (opt coef_init (Some inner) ic ib))]) = Inr coefs"
  using assms
  by (auto simp: Let_def getitem_def split: sum.splits option.splits if_splits)

lemma onion_extends_earlier_parent:
  assumes run: "do_onion_opt opt nzeta iconfs ibands deps guess = Inr coefs"
    and i: "i < length nzeta" "i < length deps" "i < length iconfs" "i < length ibands"
    and dep: "deps ! i = Some p" "0 \<le> p" "nat p < i"
  shows "\<exists>inner coef_init.
           coef_guess guess (nzeta ! i) (Some (nzeta ! nat p)) = Inr coef_init \<and>
           coefs ! nat p = Some inner \<and>
           coefs ! i = Some (merge2 inner (opt coef_init (Some inner) (iconfs ! i) (ibands ! i)))"
proof -
  define sh where "sh = zip [0..<length nzeta] (zip deps (zip nzeta (zip iconfs ibands)))"
  have len: "i < length sh" using i by (simp add: sh_def)
  have fsts: "map fst sh = [0..<length sh]"
    by (simp add: sh_def map_fst_zip_take take_upt min_def)
  have shi: "sh ! i = (i, Some p, nzeta ! i, iconfs ! i, ibands ! i)"
    using i dep(1) by (simp add: sh_def)
  have split: "sh = take i sh @ (sh ! i) # drop (Suc i) sh"
    using len by (simp add: id_take_nth_drop)
  have before: "fst ` set (take i sh) = {0..<i}"
  proof -
    have "map fst (take i sh) = take i (map fst sh)" by (rule take_map[symmetric])
    also have "\<dots> = take i [0..<length sh]" by (simp only: fsts)
    also have "\<dots> = [0..<i]" using len by (simp add: take_upt)
    finally have "set (map fst (take i sh)) = {0..<i}" by simp
    then show ?thesis by simp
  qed
  have after: "fst ` set (drop (Suc i) sh) = {Suc i..<length sh}"
  proof -
    have "map fst (drop (Suc i) sh) = drop (Suc i) (map fst sh)" by (rule drop_map[symmetric])
    also have "\<dots> = drop (Suc i) [0..<length sh]" by (simp only: fsts)
    finally have "set (map fst (drop (Suc i) sh)) = {Suc i..<length sh}" by simp
    then show ?thesis by simp
  qed
  from run have "onion_loop opt guess nzeta sh (replicate (length nzeta) None) = Inr coefs"
    by (simp add: do_onion_opt_def Let_def sh_def)
  then have "onion_loop opt guess nzeta (take i sh @ (sh ! i) # drop (Suc i) sh)
               (replicate (length nzeta) None) = Inr coefs"
    using split by simp
  then obtain coefs1 where
    c1: "onion_loop opt guess nzeta (take i sh) (replicate (length nzeta) None) = Inr coefs1"
    and c2: "onion_loop opt guess nzeta ((i, Some p, nzeta ! i, iconfs ! i, ibands ! i) # drop (Suc i) sh) coefs1
               = Inr coefs"
    by (auto simp: onion_loop_append shi split: sum.splits)
  from onion_loop_frame[OF c1] have l1: "length coefs1 = length nzeta" by simp
  have "nat p \<in> fst ` set (take i sh)" using dep(3) before by simp
  with onion_loop_filled[OF c1] dep(3) i(1) obtain inner where inner: "coefs1 ! nat p = Some inner"
    by fastforce
  have pl: "nat p < length coefs1" using dep(3) i(1) l1 by simp
  from onion_step_parent[OF c2 dep(2) pl inner] obtain coef_init where
    g: "coef_guess guess (nzeta ! i) (Some (nzeta ! nat p)) = Inr coef_init"
    and c3: "onion_loop opt guess nzeta (drop (Suc i) sh)
               (coefs1[i := Some (merge2 inner (opt coef_init (Some inner) (iconfs ! i) (ibands ! i)))])
             = Inr coefs"
    by blast
  have "i \<notin> fst ` set (drop (Suc i) sh)" "nat p \<notin> fst ` set (drop (Suc i) sh)"
    using dep(3) by (simp_all add: after)
  with onion_loop_frame[OF c3] i(1) l1 dep(3) inner
  have "coefs ! i = Some (merge2 inner (opt coef_init (Some inner) (iconfs ! i) (ibands ! i)))"
    and "coefs ! nat p = Some inner"
    by simp_all
  with g show ?thesis by blast
qed

section \<open>Properties of the file discovery\<close>

lemma orb_matrices_legacy_pair:
  assumes "filter match_old listing = [a, b]" "filter match_new listing = []"
  shows "orb_matrices folder listing = Inr [(path_join folder a, path_join folder b)]"
  using assms by (simp add: orb_matrices_def)

lemma orb_matrices_coexist:
  assumes "f \<in> set listing" "match_old f" "g \<in> set listing" "match_new g"
  shows "orb_matrices folder listing = Inl (AssertionError NoMessage)"
proof -
  have "filter match_old listing \<noteq> []" "filter match_new listing \<noteq> []"
    using assms by (auto simp: filter_empty_conv)
  then show ?thesis by (simp add: orb_matrices_def)
qed

lemma orb_matrices_odd:
  assumes "odd (length (filter match_new listing))"
  shows "orb_matrices folder listing = Inl (AssertionError NoMessage)"
proof -
  from assms have "filter match_new listing \<noteq> []" by (cases "filter match_new listing") auto
  with assms show ?thesis by (auto simp: orb_matrices_def Let_def odd_iff_mod_2_eq_one)
qed

lemma orb_matrices_new_sorted:
  assumes "filter match_old listing = []" "filter match_new listing \<noteq> []"
    and "even (length (filter match_new listing))"
  shows "orb_matrices folder listing = pairs (sort (map (path_join folder) (filter match_new listing)))"
  using assms by (auto simp: orb_matrices_def Let_def)

lemma orb_matrices_names:
  "match_old ''orb_matrix.0.dat''" "match_old ''orb_matrix.1.dat''"
  "\<not> match_new ''orb_matrix.0.dat''" "\<not> match_new ''orb_matrix.1.dat''"
  "match_new ''orb_matrix_rcut6deriv0.dat''" "match_new ''orb_matrix_rcut6deriv1.dat''"
  "match_new ''orb_matrix_rcut10deriv0.dat''" "match_new ''orb_matrix_rcut10deriv1.dat''"
  "\<not> match_old ''orb_matrix_rcut6deriv0.dat''" "\<not> match_old ''orb_matrix_rcut6deriv1.dat''"
  "\<not> match_old ''orb_matrix_rcut10deriv0.dat''" "\<not> match_old ''orb_matrix_rcut10deriv1.dat''"
  by (simp_all add: match_old_def match_new_def starts_with_def any_char_def is_digit_def)

text \<open>
  Claim C8 holds for the legacy pair, for the coexistence of the two namings and for an odd
  number of new-style files (the three lemmas above). It asks moreover that new-style pairs
  come sorted by the cutoff radius as a number. \<^verbatim>\<open>sorted(new_files)\<close> compares the names as
  strings: in a folder with the files of the cutoff radii 6 and 10, both in the range that
  the function documents, the pair of the radius 10 is yielded before the pair of the
  radius 6.
\<close>

theorem orb_matrices_rcut_10_before_6:
  "orb_matrices ''Si-dimer''
     [''orb_matrix_rcut6deriv0.dat'', ''orb_matrix_rcut6deriv1.dat'',
      ''orb_matrix_rcut10deriv0.dat'', ''orb_matrix_rcut10deriv1.dat'']
     = Inr [(''Si-dimer/orb_matrix_rcut10deriv0.dat'', ''Si-dimer/orb_matrix_rcut10deriv1.dat''),
            (''Si-dimer/orb_matrix_rcut6deriv0.dat'', ''Si-dimer/orb_matrix_rcut6deriv1.dat'')]
   \<and> rcut_of ''orb_matrix_rcut10deriv0.dat'' = 10
   \<and> rcut_of ''orb_matrix_rcut6deriv0.dat'' = 6"
  by code_simp

section \<open>Properties of the zeta count inference\<close>

subsection \<open>Combining the configurations\<close>

lemma traverse_of_map_Inr:
  "map f xs = map Inr ys \<Longrightarrow> traverse f xs = Inr ys"
proof (induction xs arbitrary: ys)
  case Nil
  then show ?case by simp
next
  case (Cons x xs)
  then obtain y ys' where "ys = y # ys'" "f x = Inr y" "map f xs = map Inr ys'"
    by (cases ys) auto
  with Cons.IH[of ys'] show ?case by simp
qed

lemma foldl_max_lengths:
  "\<forall>v\<in>set vs. length v = L \<Longrightarrow>
     foldl max a (map length vs) = (if vs = [] then a else max a L)"
  by (induction vs arbitrary: a) (auto simp: max.assoc)

lemma foldl_max_Max:
  fixes x :: "'a :: linorder"
  shows "foldl max x xs = Max (set (x # xs))"
proof (induction xs arbitrary: x)
  case Nil
  then show ?case by simp
next
  case (Cons y ys)
  have "foldl max x (y # ys) = Max (set (max x y # ys))" using Cons.IH by simp
  also have "\<dots> = Max (set (x # y # ys))"
    by (cases "ys = []") (simp_all add: max.assoc)
  finally show ?case .
qed

lemma column_max:
  assumes "vs \<noteq> []"
  shows "foldl max (hd vs ! l) (map (\<lambda>nz. nz ! l) (tl vs)) = Max ((\<lambda>v. v ! l) ` set vs)"
proof -
  from assms obtain v vs' where vs: "vs = v # vs'" by (cases vs) auto
  have "foldl max (v ! l) (map (\<lambda>nz. nz ! l) vs') = Max (set (v ! l # map (\<lambda>nz. nz ! l) vs'))"
    by (rule foldl_max_Max)
  then show ?thesis by (simp add: vs)
qed


text \<open>
  Claim C6. When the inference succeeds for every configuration, with vectors \<open>vs\<close> of one
  length \<open>L\<close> (at least one configuration), \<^verbatim>\<open>_nzeta_mean_conf\<close> returns their componentwise
  maximum under the statistics \<^verbatim>\<open>'max'\<close> and their componentwise arithmetic mean under
  \<^verbatim>\<open>'mean'\<close>; and the zeta count that the jy path takes from the inference is the ceiling of
  every component of the maximum: an integer not below the component and less than one
  above it.
\<close>

theorem nzeta_statistics:
  assumes infer: "map (\<lambda>(folder, nband). nzeta_infer folder nband 1)
                    (zip folders (per_folder nbands folders)) = map Inr vs"
    and ne: "vs \<noteq> []"
    and len: "\<forall>v\<in>set vs. length v = L"
  shows "nzeta_mean_conf nbands folders ''max''
           = Inr (Vector (map (\<lambda>l. Max ((\<lambda>v. v ! l) ` set vs)) [0..<L]))
       \<and> nzeta_mean_conf nbands folders ''mean''
           = Inr (Vector (map (\<lambda>l. (\<Sum>v\<leftarrow>vs. v ! l) / real (length vs)) [0..<L]))
       \<and> jy_nzeta Auto nbands folders
           = Inr (map (\<lambda>l. \<lceil>Max ((\<lambda>v. v ! l) ` set vs)\<rceil>) [0..<L])
       \<and> (\<forall>r. jy_nzeta Auto nbands folders = Inr r \<longrightarrow>
            (\<forall>l<L. Max ((\<lambda>v. v ! l) ` set vs) \<le> real_of_int (r ! l)
                  \<and> real_of_int (r ! l) < Max ((\<lambda>v. v ! l) ` set vs) + 1))"
proof -
  have tr: "traverse (\<lambda>(folder, nband). nzeta_infer folder nband 1)
              (zip folders (per_folder nbands folders)) = Inr vs"
    using infer by (rule traverse_of_map_Inr)
  have shape: "foldl max 0 (map length vs) = L"
    using foldl_max_lengths[OF len, of 0] ne by simp
  have all: "list_all (\<lambda>nz. length nz = L) vs" using len by (simp add: list_all_iff)
  have mx: "nzeta_mean_conf nbands folders ''max''
           = Inr (Vector (map (\<lambda>l. Max ((\<lambda>v. v ! l) ` set vs)) [0..<L]))"
    using ne by (simp add: nzeta_mean_conf_def tr shape all column_max)
  have mn: "nzeta_mean_conf nbands folders ''mean''
           = Inr (Vector (map (\<lambda>l. (\<Sum>v\<leftarrow>vs. v ! l) / real (length vs)) [0..<L]))"
    using ne by (simp add: nzeta_mean_conf_def tr shape all)
  have jy: "jy_nzeta Auto nbands folders
           = Inr (map (\<lambda>l. \<lceil>Max ((\<lambda>v. v ! l) ` set vs)\<rceil>) [0..<L])"
    by (simp add: jy_nzeta_def mx comp_def)
  have "\<forall>l<L. Max ((\<lambda>v. v ! l) ` set vs) \<le> real_of_int (r ! l)
                  \<and> real_of_int (r ! l) < Max ((\<lambda>v. v ! l) ` set vs) + 1"
    if "jy_nzeta Auto nbands folders = Inr r" for r
  proof -
    from that jy have r: "r = map (\<lambda>l. \<lceil>Max ((\<lambda>v. v ! l) ` set vs)\<rceil>) [0..<L]" by simp
    show ?thesis by (auto simp: r) linarith+
  qed
  with mx mn jy show ?thesis by blast
qed

lemma infer_examples:
  "nzeta_infer example_config_a (NInt 4) 1 = Inr [1, 2, 0]"
  "nzeta_infer example_config_b (NInt 4) 1 = Inr [3 / 2, 3 / 2, 1 / 2]"
  by (simp_all add: nzeta_infer_def infer_step_def example_config_a_def example_config_b_def
        example_kfile_a_def example_kfile_b_def resolve_def getitem2_def getitem_def
        np_resize_def np_add_def upt_rec Let_def)

theorem nzeta_statistics_witness:
  "nzeta_mean_conf (Scalar (NInt 4)) [example_config_a, example_config_b] ''max''
     = Inr (Vector [3 / 2, 2, 1 / 2])
   \<and> nzeta_mean_conf (Scalar (NInt 4)) [example_config_a, example_config_b] ''mean''
     = Inr (Vector [5 / 4, 7 / 4, 1 / 4])
   \<and> jy_nzeta Auto (Scalar (NInt 4)) [example_config_a, example_config_b] = Inr [2, 2, 1]"
proof -
  have infer: "map (\<lambda>(folder, nband). nzeta_infer folder nband 1)
                 (zip [example_config_a, example_config_b]
                      (per_folder (Scalar (NInt 4)) [example_config_a, example_config_b]))
               = map Inr [[1, 2, 0], [3 / 2, 3 / 2, 1 / 2]]"
    by (simp add: per_folder_def infer_examples numeral_2_eq_2)
  have ne: "[[1, 2, 0], [3 / 2, 3 / 2, 1 / 2 :: real]] \<noteq> []" by simp
  have len: "\<forall>v\<in>set [[1, 2, 0], [3 / 2, 3 / 2, 1 / 2 :: real]]. length v = 3" by simp
  have half: "\<lceil>1 / 2 :: real\<rceil> = 1" by (rule ceiling_unique) simp_all
  from nzeta_statistics [OF infer ne len] show ?thesis
    by (simp add: upt_rec half)
qed



subsection \<open>More bands requested than computed\<close>

lemma infer_step_too_few_bands:
  assumes "isk < length (kfiles c)"
    and "kpt_index (kfiles c ! isk) = Some ik'"
    and "getitem2 (occ c) (int isk mod input_nspin c) (int ik') = Inr occs"
    and "resolve nband (int (length (filter (\<lambda>x. 0 < x) occs))) (int (length occs)) = Inr n"
    and "wfc_nbands (kfiles c ! isk) < n"
  shows "infer_step svd_thr c isk (nband, nzeta)
           = Inl (AssertionError (MoreBandsThanCalculated n (wfc_nbands (kfiles c ! isk))))"
  using assms by (simp add: infer_step_def Let_def)

lemma infer_step_NInt_InrD:
  assumes "infer_step svd_thr c isk (NInt n, nzeta) = Inr st"
  shows "fst st = NInt n \<and> isk < length (kfiles c) \<and> n \<le> wfc_nbands (kfiles c ! isk)"
  using assms
  by (auto simp: infer_step_def Let_def resolve_def split: if_splits option.splits sum.splits)

lemma foldE_infer_NInt_InrD:
  "foldE (infer_step svd_thr c) xs (NInt n, nzeta) = Inr st \<Longrightarrow>
     \<forall>isk\<in>set xs. isk < length (kfiles c) \<and> n \<le> wfc_nbands (kfiles c ! isk)"
proof (induction xs arbitrary: nzeta)
  case Nil
  then show ?case by simp
next
  case (Cons x xs)
  then obtain st1 where st1: "infer_step svd_thr c x (NInt n, nzeta) = Inr st1"
    and rest: "foldE (infer_step svd_thr c) xs st1 = Inr st"
    by (auto split: sum.splits)
  from infer_step_NInt_InrD[OF st1] obtain z where "st1 = (NInt n, z)"
    and x: "x < length (kfiles c) \<and> n \<le> wfc_nbands (kfiles c ! x)"
    by (cases st1) auto
  with Cons.IH[of z] rest x show ?case by simp
qed


text \<open>
  Claim C7. In a configuration whose two values of \<^verbatim>\<open>nspin\<close> agree and that has a k-point,
  when the first wave function file is read (its k-point is found among those of
  \<^verbatim>\<open>istate.info\<close>) and the requested band count \<open>n\<close> exceeds its number of bands,
  \<^verbatim>\<open>_nzeta_infer\<close> fails in the first iteration with the assertion whose message names \<open>n\<close>
  and the number of bands of the file; and whichever wave function file of the loop has fewer
  bands than an integer \<open>n\<close> asked for, \<^verbatim>\<open>_nzeta_infer\<close> returns no zeta count.
\<close>

theorem nzeta_infer_too_many_bands:
  "(input_nspin c = running_nspin c \<and> 0 < input_nspin c \<and> wk c \<noteq> [] \<and> kfiles c \<noteq> [] \<and>
    kpt_index (kfiles c ! 0) = Some ik' \<and> getitem2 (occ c) 0 (int ik') = Inr occs \<and>
    resolve nband (int (length (filter (\<lambda>x. 0 < x) occs))) (int (length occs)) = Inr n \<and>
    wfc_nbands (kfiles c ! 0) < n \<longrightarrow>
      nzeta_infer c nband svd_thr
        = Inl (AssertionError (MoreBandsThanCalculated n (wfc_nbands (kfiles c ! 0)))))
   \<and> (isk < nat (input_nspin c * int (length (wk c))) \<and> isk < length (kfiles c) \<and>
      wfc_nbands (kfiles c ! isk) < n \<longrightarrow>
      (\<exists>e. nzeta_infer c (NInt n) svd_thr = Inl e))"
proof (intro conjI impI)
  assume h: "input_nspin c = running_nspin c \<and> 0 < input_nspin c \<and> wk c \<noteq> [] \<and> kfiles c \<noteq> [] \<and>
    kpt_index (kfiles c ! 0) = Some ik' \<and> getitem2 (occ c) 0 (int ik') = Inr occs \<and>
    resolve nband (int (length (filter (\<lambda>x. 0 < x) occs))) (int (length occs)) = Inr n \<and>
    wfc_nbands (kfiles c ! 0) < n"
  then have "0 < input_nspin c * int (length (wk c))" by simp
  then have "0 < nat (input_nspin c * int (length (wk c)))" by linarith
  then obtain rest where r: "[0..<nat (input_nspin c * int (length (wk c)))] = 0 # rest"
    by (auto simp: upt_conv_Cons)
  from h have "infer_step svd_thr c 0 (nband, [0])
           = Inl (AssertionError (MoreBandsThanCalculated n (wfc_nbands (kfiles c ! 0))))"
    by (intro infer_step_too_few_bands[where ik'=ik' and occs=occs]) simp_all
  then have "foldE (infer_step svd_thr c) [0..<nat (input_nspin c * int (length (wk c)))] (nband, [0])
           = Inl (AssertionError (MoreBandsThanCalculated n (wfc_nbands (kfiles c ! 0))))"
    by (simp add: r)
  moreover have "input_nspin c = running_nspin c" using h by simp
  ultimately show "nzeta_infer c nband svd_thr
        = Inl (AssertionError (MoreBandsThanCalculated n (wfc_nbands (kfiles c ! 0))))"
    unfolding nzeta_infer_def by simp
next
  assume h: "isk < nat (input_nspin c * int (length (wk c))) \<and> isk < length (kfiles c) \<and>
      wfc_nbands (kfiles c ! isk) < n"
  show "\<exists>e. nzeta_infer c (NInt n) svd_thr = Inl e"
  proof (cases "nzeta_infer c (NInt n) svd_thr")
    case (Inl e)
    then show ?thesis by blast
  next
    case (Inr v)
    then obtain st where
      "foldE (infer_step svd_thr c) [0..<nat (input_nspin c * int (length (wk c)))] (NInt n, [0]) = Inr st"
      by (auto simp: nzeta_infer_def split: if_splits sum.splits)
    from foldE_infer_NInt_InrD[OF this]
    have "\<forall>i\<in>set [0..<nat (input_nspin c * int (length (wk c)))]. n \<le> wfc_nbands (kfiles c ! i)"
      by blast
    moreover have "isk \<in> set [0..<nat (input_nspin c * int (length (wk c)))]" using h by simp
    ultimately have "n \<le> wfc_nbands (kfiles c ! isk)" by blast
    with h have False by linarith
    then show ?thesis ..
  qed
qed

theorem nzeta_infer_too_many_bands_witness:
  "nzeta_infer example_config_a (NInt 9) 1 = Inl (AssertionError (MoreBandsThanCalculated 9 8))
   \<and> (\<exists>e. nzeta_infer example_config_b (NInt 9) 1 = Inl e)"
proof -
  have 1: "nzeta_infer example_config_a (NInt 9) 1 = Inl (AssertionError (MoreBandsThanCalculated 9 8))"
    using nzeta_infer_too_many_bands [where c = example_config_a and ik' = 0
            and occs = "[2, 2, 0, 0]" and nband = "NInt 9" and n = 9 and isk = 0 and svd_thr = 1]
    by (simp add: example_config_a_def example_kfile_a_def getitem2_def getitem_def resolve_def)
  have 2: "\<exists>e. nzeta_infer example_config_b (NInt 9) 1 = Inl e"
    using nzeta_infer_too_many_bands [where c = example_config_b and ik' = 0
            and occs = "[2, 2, 0, 0]" and nband = "NInt 9" and n = 9 and isk = 1 and svd_thr = 1]
    by (simp add: example_config_b_def example_kfile_a_def example_kfile_b_def
          getitem2_def getitem_def resolve_def)
  from 1 2 show ?thesis by simp
qed

end
